theory Spec2Isabelle
  imports Main "HOL-Library.AList"
begin

section \<open>Automation types (types.ts)\<close>

text \<open>
  The records follow the TypeScript interfaces field by field. Record fields are global
  names in HOL, so each field carries a short prefix for its interface (\<open>ac_\<close> for
  ActionConfig, \<open>a_\<close> for Automation, \<open>r_\<close> for AutomationRun). An optional or
  nullable field is an \<open>option\<close>. JavaScript numbers are restricted to integers.
\<close>

datatype TriggerType =
    Schedule | FileChange | Hotkey | Webhook | DeepLink
  | AppEvent | PowerEvent | Clipboard | FolderAction | Manual

datatype FileEvent = Add | Change | Unlink

datatype TriggerConfig =
    ScheduleTriggerConfig (cron: "string option") (rrule: "string option") (timezone: "string option")
  | FileChangeTriggerConfig (paths: "string list") (patterns: "string list option")
      (fc_events: "FileEvent list") (debounceMs: "nat option")
  | HotkeyTriggerConfig (accelerator: string)
  | WebhookTriggerConfig (wh_path: "string option") (secret: "string option")
  | DeepLinkTriggerConfig
  | AppEventTriggerConfig (app_events: "string list")
  | PowerEventTriggerConfig (power_events: "string list")
  | ClipboardTriggerConfig (pattern: "string option") (pollIntervalMs: "nat option")
  | FolderActionTriggerConfig (folderPath: string) (extensions: "string list option")
      (namePattern: "string option") (minSize: "int option") (maxSize: "int option")
      (doneFolder: "string option")
  | ManualTriggerConfig

fun config_type :: "TriggerConfig \<Rightarrow> TriggerType" where
  "config_type (ScheduleTriggerConfig _ _ _) = Schedule"
| "config_type (FileChangeTriggerConfig _ _ _ _) = FileChange"
| "config_type (HotkeyTriggerConfig _) = Hotkey"
| "config_type (WebhookTriggerConfig _ _) = Webhook"
| "config_type DeepLinkTriggerConfig = DeepLink"
| "config_type (AppEventTriggerConfig _) = AppEvent"
| "config_type (PowerEventTriggerConfig _) = PowerEvent"
| "config_type (ClipboardTriggerConfig _ _) = Clipboard"
| "config_type (FolderActionTriggerConfig _ _ _ _ _ _) = FolderAction"
| "config_type ManualTriggerConfig = Manual"

datatype PermissionMode = Safe | Ask | AllowAll

record ActionConfig =
  ac_model :: "string option"
  ac_permissionMode :: "PermissionMode option"
  ac_maxTurns :: "int option"
  ac_timeoutSeconds :: "int option"
  ac_sourceSlugs :: "string list option"
  ac_skillSlugs :: "string list option"
  ac_workingDirectory :: "string option"

datatype AutomationRunStatus = Pending | Running | Success | Failure | Cancelled

datatype AutomationLastStatus = LastSuccess | LastFailure | LastRunning

record Automation =
  a_id :: string
  a_name :: string
  a_prompt :: string
  a_triggerConfig :: TriggerConfig
  a_actionConfig :: ActionConfig
  a_enabled :: bool
  a_lastRunAt :: "string option"
  a_nextRunAt :: "string option"
  a_createdAt :: string
  a_updatedAt :: string
  a_workspaceId :: string
  a_runCount :: int
  a_lastStatus :: "AutomationLastStatus option"

text \<open>
  A trigger context is a \<open>Record<string, unknown>\<close>: an ordered list of keys with JSON
  values.
\<close>

datatype jvalue = JString string | JNull | JArray "jvalue list" | JObject "(string \<times> jvalue) list"

type_synonym trigger_context = "(string \<times> jvalue) list"

record AutomationRun =
  r_id :: string
  r_automationId :: string
  r_status :: AutomationRunStatus
  r_startedAt :: string
  r_completedAt :: "string option"
  r_sessionId :: "string option"
  r_summary :: "string option"
  r_error :: "string option"
  r_triggeredBy :: TriggerType
  r_triggerContext :: "trigger_context option"

section \<open>Storage (storage.ts)\<close>

text \<open>
  The file system under the workspace roots, at the level of the parsed JSON values:
  \<open>configs root\<close> is the content of \<open>{root}/automations/config.json\<close> (the empty list
  when the file is missing or unreadable, which is what \<open>loadAutomations\<close> returns), and
  \<open>run_files (root, id)\<close> is the content of \<open>{root}/automations/runs/{id}.json\<close>.
  \<open>run_writes\<close> is the history of the \<open>writeFileSync\<close> calls made by \<open>saveRun\<close>,
  oldest first.
\<close>

record store =
  configs :: "string \<Rightarrow> Automation list"
  run_files :: "string \<times> string \<Rightarrow> AutomationRun option"
  run_writes :: "((string \<times> string) \<times> AutomationRun) list"

definition loadAutomations :: "string \<Rightarrow> store \<Rightarrow> Automation list" where
  "loadAutomations workspaceRoot fs = configs fs workspaceRoot"

definition saveAutomations :: "string \<Rightarrow> Automation list \<Rightarrow> store \<Rightarrow> store" where
  "saveAutomations workspaceRoot automations fs =
     fs\<lparr>configs := (configs fs)(workspaceRoot := automations)\<rparr>"

definition getAutomation :: "string \<Rightarrow> string \<Rightarrow> store \<Rightarrow> Automation option" where
  "getAutomation workspaceRoot automationId fs =
     find (\<lambda>a. a_id a = automationId) (loadAutomations workspaceRoot fs)"

text \<open>\<open>Array.prototype.findIndex\<close>: the first index whose element satisfies the test.\<close>

fun findIndex :: "('a \<Rightarrow> bool) \<Rightarrow> 'a list \<Rightarrow> nat option" where
  "findIndex P [] = None"
| "findIndex P (x # xs) =
     (if P x then Some 0 else (case findIndex P xs of None \<Rightarrow> None | Some i \<Rightarrow> Some (Suc i)))"

definition saveRun :: "string \<Rightarrow> AutomationRun \<Rightarrow> store \<Rightarrow> store" where
  "saveRun workspaceRoot run fs =
     fs\<lparr>run_files := (run_files fs)((workspaceRoot, r_id run) \<mapsto> run),
        run_writes := run_writes fs @ [((workspaceRoot, r_id run), run)]\<rparr>"

definition getRun :: "string \<Rightarrow> string \<Rightarrow> store \<Rightarrow> AutomationRun option" where
  "getRun workspaceRoot runId fs = run_files fs (workspaceRoot, runId)"

text \<open>
  \<open>createRun\<close>: the fresh id (\<open>generateId()\<close>) and the start time
  (\<open>new Date().toISOString()\<close>) are inputs.
\<close>

definition createRun ::
  "string \<Rightarrow> string \<Rightarrow> TriggerType \<Rightarrow> trigger_context option \<Rightarrow> string \<Rightarrow> string \<Rightarrow> store
     \<Rightarrow> AutomationRun \<times> store" where
  "createRun workspaceRoot automationId triggeredBy triggerContext new_id now fs =
     (let run = \<lparr>r_id = new_id, r_automationId = automationId, r_status = Pending,
                 r_startedAt = now, r_completedAt = None, r_sessionId = None,
                 r_summary = None, r_error = None, r_triggeredBy = triggeredBy,
                 r_triggerContext = triggerContext\<rparr>
      in (run, saveRun workspaceRoot run fs))"

text \<open>
  The \<open>updates\<close> argument of \<open>updateRun\<close> is a
  \<open>Partial<Pick<AutomationRun, 'status' | 'completedAt' | 'sessionId' | 'summary' | 'error'>>\<close>:
  each of the five keys is absent (\<open>None\<close>) or carries a value of the field's type.
\<close>

record RunUpdates =
  u_status :: "AutomationRunStatus option"
  u_completedAt :: "string option option"
  u_sessionId :: "string option option"
  u_summary :: "string option option"
  u_error :: "string option option"

definition no_updates :: RunUpdates where
  "no_updates = \<lparr>u_status = None, u_completedAt = None, u_sessionId = None,
                 u_summary = None, u_error = None\<rparr>"

text \<open>The object spread \<open>{ ...run, ...updates }\<close>.\<close>

definition spread :: "AutomationRun \<Rightarrow> RunUpdates \<Rightarrow> AutomationRun" where
  "spread run updates =
     run\<lparr>r_status := (case u_status updates of None \<Rightarrow> r_status run | Some v \<Rightarrow> v),
         r_completedAt := (case u_completedAt updates of None \<Rightarrow> r_completedAt run | Some v \<Rightarrow> v),
         r_sessionId := (case u_sessionId updates of None \<Rightarrow> r_sessionId run | Some v \<Rightarrow> v),
         r_summary := (case u_summary updates of None \<Rightarrow> r_summary run | Some v \<Rightarrow> v),
         r_error := (case u_error updates of None \<Rightarrow> r_error run | Some v \<Rightarrow> v)\<rparr>"

definition updateRun ::
  "string \<Rightarrow> string \<Rightarrow> RunUpdates \<Rightarrow> store \<Rightarrow> AutomationRun option \<times> store" where
  "updateRun workspaceRoot runId updates fs =
     (case getRun workspaceRoot runId fs of
        None \<Rightarrow> (None, fs)
      | Some run \<Rightarrow>
          (let updated = spread run updates
           in (Some updated, saveRun workspaceRoot updated fs)))"

definition updateAutomationAfterRun ::
  "string \<Rightarrow> string \<Rightarrow> AutomationRun \<Rightarrow> string \<Rightarrow> store \<Rightarrow> store" where
  "updateAutomationAfterRun workspaceRoot automationId run now fs =
     (let automations = loadAutomations workspaceRoot fs
      in case findIndex (\<lambda>a. a_id a = automationId) automations of
           None \<Rightarrow> fs
         | Some index \<Rightarrow>
             (let automation = automations ! index;
                  automation1 = automation\<lparr>a_lastRunAt :=
                     Some (case r_completedAt run of Some c \<Rightarrow> c | None \<Rightarrow> r_startedAt run)\<rparr>;
                  automation2 = automation1\<lparr>a_lastStatus :=
                     (if r_status run = Success then Some LastSuccess
                      else if r_status run = Failure then Some LastFailure
                      else if r_status run = Running then Some LastRunning
                      else a_lastStatus automation1)\<rparr>;
                  automation3 = automation2\<lparr>a_runCount := a_runCount automation2 + 1\<rparr>;
                  automation4 = automation3\<lparr>a_updatedAt := now\<rparr>
              in saveAutomations workspaceRoot (automations[index := automation4]) fs))"

section \<open>Trigger registry (triggers.ts)\<close>

text \<open>
  The registry keeps the \<open>triggers\<close> map (a JavaScript \<open>Map\<close>, here an association
  list in insertion order with \<open>AList.update\<close> and \<open>AList.delete\<close>). The host
  facilities it subscribes to (croner jobs, Electron global shortcuts, \<open>fs.watch\<close>
  watchers, \<open>powerMonitor\<close> and \<open>app\<close> listeners, interval timers) are the
  \<open>handlers\<close>: one entry per installed callback, on the resource it was installed on.
  A \<open>stop\<close> closure is the list of resources it releases.
\<close>

datatype resource =
    CronJob nat
  | GlobalShortcut string
  | FsWatcher nat
  | PowerListener string nat
  | AppListener string nat
  | IntervalTimer nat

record handler =
  h_resource :: resource
  h_workspaceId :: string
  h_automationId :: string
  h_type :: TriggerType

record RegisteredTrigger =
  rt_automationId :: string
  rt_type :: TriggerType
  rt_stop :: "resource list"

text \<open>The arguments of one \<open>onTrigger\<close> call.\<close>

record trigger_call =
  tc_workspaceId :: string
  tc_automationId :: string
  tc_triggeredBy :: TriggerType
  tc_triggerContext :: trigger_context

text \<open>The variables captured by the clipboard poll callback.\<close>

record clipboard_closure =
  cc_lastContent :: string
  cc_regex :: "(string \<Rightarrow> bool) option"

record trigger_registry =
  triggers :: "(string \<times> RegisteredTrigger) list"
  handlers :: "handler list"
  next_handle :: nat
  closures :: "(nat \<times> clipboard_closure) list"
  fired :: "trigger_call list"

text \<open>
  What the host answers during one registration: whether croner accepts an expression
  and timezone, whether the operating system grants a shortcut, which paths exist, whether
  \<open>fs.watch\<close> succeeds on a path, the \<open>RegExp\<close> constructor (\<open>None\<close> when it
  throws, otherwise the \<open>test\<close> function of the compiled expression), the clipboard
  text and the time.
\<close>

record host_env =
  cron_accepts :: "string \<Rightarrow> string option \<Rightarrow> bool"
  shortcut_granted :: "string \<Rightarrow> bool"
  existsSync :: "string \<Rightarrow> bool"
  watch_succeeds :: "string \<Rightarrow> bool"
  RegExp :: "string \<Rightarrow> (string \<Rightarrow> bool) option"
  clipboard_readText :: string
  now_iso :: string

definition install :: "resource \<Rightarrow> Automation \<Rightarrow> TriggerType \<Rightarrow> trigger_registry \<Rightarrow> trigger_registry" where
  "install r automation ty reg =
     reg\<lparr>handlers := handlers reg @
            [\<lparr>h_resource = r, h_workspaceId = a_workspaceId automation,
              h_automationId = a_id automation, h_type = ty\<rparr>]\<rparr>"

definition triggers_set :: "Automation \<Rightarrow> TriggerType \<Rightarrow> resource list \<Rightarrow> trigger_registry \<Rightarrow> trigger_registry" where
  "triggers_set automation ty stop reg =
     reg\<lparr>triggers := AList.update (a_id automation)
            \<lparr>rt_automationId = a_id automation, rt_type = ty, rt_stop = stop\<rparr> (triggers reg)\<rparr>"

definition onTrigger :: "Automation \<Rightarrow> TriggerType \<Rightarrow> trigger_context \<Rightarrow> trigger_registry \<Rightarrow> trigger_registry" where
  "onTrigger automation ty ctx reg =
     reg\<lparr>fired := fired reg @
            [\<lparr>tc_workspaceId = a_workspaceId automation, tc_automationId = a_id automation,
              tc_triggeredBy = ty, tc_triggerContext = ctx\<rparr>]\<rparr>"

definition stop_trigger :: "RegisteredTrigger \<Rightarrow> trigger_registry \<Rightarrow> trigger_registry" where
  "stop_trigger t reg =
     reg\<lparr>handlers := filter (\<lambda>h. h_resource h \<notin> set (rt_stop t)) (handlers reg)\<rparr>"

definition unregister :: "string \<Rightarrow> trigger_registry \<Rightarrow> trigger_registry" where
  "unregister automationId reg =
     (case map_of (triggers reg) automationId of
        None \<Rightarrow> reg
      | Some existing \<Rightarrow>
          (let reg1 = stop_trigger existing reg
           in reg1\<lparr>triggers := AList.delete automationId (triggers reg1)\<rparr>))"

definition unregisterAll :: "trigger_registry \<Rightarrow> trigger_registry" where
  "unregisterAll reg =
     (fold (\<lambda>(id, trigger). stop_trigger trigger) (triggers reg) reg)\<lparr>triggers := []\<rparr>"

definition getActiveTriggerCount :: "trigger_registry \<Rightarrow> nat" where
  "getActiveTriggerCount reg = length (triggers reg)"

definition registerScheduleTrigger ::
  "host_env \<Rightarrow> Automation \<Rightarrow> string option \<Rightarrow> string option \<Rightarrow> trigger_registry \<Rightarrow> trigger_registry" where
  "registerScheduleTrigger env automation cron_expr tz reg =
     (case cron_expr of
        None \<Rightarrow> reg
      | Some c \<Rightarrow>
          if c = [] then reg
          else if cron_accepts env c tz then
            (let job = next_handle reg;
                 reg1 = install (CronJob job) automation Schedule (reg\<lparr>next_handle := Suc job\<rparr>)
             in triggers_set automation Schedule [CronJob job] reg1)
          else reg)"

text \<open>
  \<open>globalShortcut.register\<close> returns false when the accelerator is already bound, by
  this application or by another one.
\<close>

definition registerHotkeyTrigger ::
  "host_env \<Rightarrow> Automation \<Rightarrow> string \<Rightarrow> trigger_registry \<Rightarrow> trigger_registry" where
  "registerHotkeyTrigger env automation accel reg =
     (if accel = [] then reg
      else
        (let success = (shortcut_granted env accel \<and>
                        GlobalShortcut accel \<notin> h_resource ` set (handlers reg))
         in if success then
              triggers_set automation Hotkey [GlobalShortcut accel]
                (install (GlobalShortcut accel) automation Hotkey reg)
            else reg))"

fun open_watchers ::
  "host_env \<Rightarrow> Automation \<Rightarrow> string list \<Rightarrow> nat list \<Rightarrow> trigger_registry \<Rightarrow> nat list \<times> trigger_registry" where
  "open_watchers env automation [] watchers reg = (watchers, reg)"
| "open_watchers env automation (watchPath # rest) watchers reg =
     (if \<not> existsSync env watchPath then open_watchers env automation rest watchers reg
      else if watch_succeeds env watchPath then
        (let watcher = next_handle reg;
             reg1 = install (FsWatcher watcher) automation FileChange (reg\<lparr>next_handle := Suc watcher\<rparr>)
         in open_watchers env automation rest (watchers @ [watcher]) reg1)
      else open_watchers env automation rest watchers reg)"

definition registerFileChangeTrigger ::
  "host_env \<Rightarrow> Automation \<Rightarrow> string list \<Rightarrow> trigger_registry \<Rightarrow> trigger_registry" where
  "registerFileChangeTrigger env automation watch_paths reg =
     (if watch_paths = [] then reg
      else
        (case open_watchers env automation watch_paths [] reg of
           (watchers, reg1) \<Rightarrow>
             if watchers \<noteq> [] then
               triggers_set automation FileChange (map FsWatcher watchers) reg1
             else reg1))"

definition eventMap :: "string \<Rightarrow> string option" where
  "eventMap eventName =
     (if eventName \<in> {''on-ac'', ''on-battery'', ''suspend'', ''resume'',
                       ''lock-screen'', ''unlock-screen''}
      then Some eventName else None)"

fun add_power_listeners ::
  "Automation \<Rightarrow> string list \<Rightarrow> resource list \<Rightarrow> trigger_registry \<Rightarrow> resource list \<times> trigger_registry" where
  "add_power_listeners automation [] listeners reg = (listeners, reg)"
| "add_power_listeners automation (eventName # rest) listeners reg =
     (case eventMap eventName of
        None \<Rightarrow> add_power_listeners automation rest listeners reg
      | Some electronEvent \<Rightarrow>
          (let l = PowerListener electronEvent (next_handle reg);
               reg1 = install l automation PowerEvent (reg\<lparr>next_handle := Suc (next_handle reg)\<rparr>)
           in add_power_listeners automation rest (listeners @ [l]) reg1))"

definition registerPowerEventTrigger ::
  "Automation \<Rightarrow> string list \<Rightarrow> trigger_registry \<Rightarrow> trigger_registry" where
  "registerPowerEventTrigger automation evs reg =
     (if evs = [] then reg
      else
        (case add_power_listeners automation evs [] reg of
           (listeners, reg1) \<Rightarrow>
             if listeners \<noteq> [] then triggers_set automation PowerEvent listeners reg1
             else reg1))"

fun add_app_listeners ::
  "host_env \<Rightarrow> Automation \<Rightarrow> string list \<Rightarrow> resource list \<Rightarrow> trigger_registry \<Rightarrow> resource list \<times> trigger_registry" where
  "add_app_listeners env automation [] listeners reg = (listeners, reg)"
| "add_app_listeners env automation (eventName # rest) listeners reg =
     (if eventName = ''app-ready'' then
        add_app_listeners env automation rest listeners
          (onTrigger automation AppEvent
             [(''event'', JString eventName), (''firedAt'', JString (now_iso env))] reg)
      else if eventName = ''window-focus'' \<or> eventName = ''window-blur'' then
        (let electronEvent = (if eventName = ''window-focus'' then ''browser-window-focus''
                              else ''browser-window-blur'');
             l = AppListener electronEvent (next_handle reg);
             reg1 = install l automation AppEvent (reg\<lparr>next_handle := Suc (next_handle reg)\<rparr>)
         in add_app_listeners env automation rest (listeners @ [l]) reg1)
      else add_app_listeners env automation rest listeners reg)"

definition registerAppEventTrigger ::
  "host_env \<Rightarrow> Automation \<Rightarrow> string list \<Rightarrow> trigger_registry \<Rightarrow> trigger_registry" where
  "registerAppEventTrigger env automation evs reg =
     (if evs = [] then reg
      else
        (case add_app_listeners env automation evs [] reg of
           (listeners, reg1) \<Rightarrow>
             if listeners \<noteq> [] \<or> ''app-ready'' \<in> set evs then
               triggers_set automation AppEvent listeners reg1
             else reg1))"

text \<open>
  The clipboard trigger. \<open>clipboard_regex\<close> is the value of the variable \<open>regex\<close>
  after the \<open>if (config.pattern) { try { ... } catch { ... } }\<close> block: \<open>null\<close> when no
  pattern is given, when it is the empty string, and when the constructor throws.
  \<open>clipboard_poll\<close> is the body of the interval callback at clipboard text
  \<open>currentContent\<close> and time \<open>now\<close>: it returns the context of the \<open>onTrigger\<close> call
  it makes, if it makes one, and the captured variables afterwards.
\<close>

definition clipboard_regex :: "host_env \<Rightarrow> string option \<Rightarrow> (string \<Rightarrow> bool) option" where
  "clipboard_regex env pat =
     (case pat of
        None \<Rightarrow> None
      | Some p \<Rightarrow> if p = [] then None else RegExp env p)"

definition clipboard_poll ::
  "clipboard_closure \<Rightarrow> string \<Rightarrow> string \<Rightarrow> trigger_context option \<times> clipboard_closure" where
  "clipboard_poll c currentContent now =
     (if currentContent = cc_lastContent c then (None, c)
      else
        (let c1 = c\<lparr>cc_lastContent := currentContent\<rparr>
         in case cc_regex c1 of
              Some test \<Rightarrow>
                if \<not> test currentContent then (None, c1)
                else (Some [(''content'', JString (take 500 currentContent)),
                            (''firedAt'', JString now)], c1)
            | None \<Rightarrow>
                (Some [(''content'', JString (take 500 currentContent)),
                       (''firedAt'', JString now)], c1)))"

definition registerClipboardTrigger ::
  "host_env \<Rightarrow> Automation \<Rightarrow> string option \<Rightarrow> trigger_registry \<Rightarrow> trigger_registry" where
  "registerClipboardTrigger env automation pat reg =
     (let c = \<lparr>cc_lastContent = clipboard_readText env, cc_regex = clipboard_regex env pat\<rparr>;
          intervalId = next_handle reg;
          reg1 = install (IntervalTimer intervalId) automation Clipboard
                   (reg\<lparr>next_handle := Suc intervalId,
                        closures := AList.update intervalId c (closures reg)\<rparr>)
      in triggers_set automation Clipboard [IntervalTimer intervalId] reg1)"

definition registerFolderActionTrigger ::
  "host_env \<Rightarrow> Automation \<Rightarrow> string \<Rightarrow> trigger_registry \<Rightarrow> trigger_registry" where
  "registerFolderActionTrigger env automation folder reg =
     (if folder = [] then reg
      else if \<not> existsSync env folder then reg
      else if watch_succeeds env folder then
        (let watcher = next_handle reg;
             reg1 = install (FsWatcher watcher) automation FolderAction (reg\<lparr>next_handle := Suc watcher\<rparr>)
         in triggers_set automation FolderAction [FsWatcher watcher] reg1)
      else reg)"

fun register_config :: "host_env \<Rightarrow> Automation \<Rightarrow> TriggerConfig \<Rightarrow> trigger_registry \<Rightarrow> trigger_registry" where
  "register_config env automation (ScheduleTriggerConfig c r tz) reg =
     registerScheduleTrigger env automation c tz reg"
| "register_config env automation (HotkeyTriggerConfig accel) reg =
     registerHotkeyTrigger env automation accel reg"
| "register_config env automation (FileChangeTriggerConfig ps pats evs d) reg =
     registerFileChangeTrigger env automation ps reg"
| "register_config env automation (PowerEventTriggerConfig evs) reg =
     registerPowerEventTrigger automation evs reg"
| "register_config env automation (AppEventTriggerConfig evs) reg =
     registerAppEventTrigger env automation evs reg"
| "register_config env automation (ClipboardTriggerConfig pat poll) reg =
     registerClipboardTrigger env automation pat reg"
| "register_config env automation (FolderActionTriggerConfig folder exts namePat mn mx dn) reg =
     registerFolderActionTrigger env automation folder reg"
| "register_config env automation ManualTriggerConfig reg = reg"
| "register_config env automation (WebhookTriggerConfig p sec) reg = reg"
| "register_config env automation DeepLinkTriggerConfig reg = reg"

definition register :: "host_env \<Rightarrow> Automation \<Rightarrow> trigger_registry \<Rightarrow> trigger_registry" where
  "register env automation reg =
     register_config env automation (a_triggerConfig automation) (unregister (a_id automation) reg)"

text \<open>
  The host invoking what is installed on a resource at a moment when the callback's
  firing condition holds (a cron tick, a key press, a lifecycle signal, a debounce flush, a
  clipboard poll that passes its tests): every callback on that resource calls
  \<open>onTrigger\<close> once, with the context \<open>ctx\<close> it builds.
\<close>

definition fire :: "resource \<Rightarrow> trigger_context \<Rightarrow> trigger_registry \<Rightarrow> trigger_registry" where
  "fire r ctx reg =
     reg\<lparr>fired := fired reg @
            map (\<lambda>h. \<lparr>tc_workspaceId = h_workspaceId h, tc_automationId = h_automationId h,
                      tc_triggeredBy = h_type h, tc_triggerContext = ctx\<rparr>)
                (filter (\<lambda>h. h_resource h = r) (handlers reg))\<rparr>"

text \<open>One tick of the interval timer of a clipboard trigger.\<close>

definition clipboard_tick :: "nat \<Rightarrow> string \<Rightarrow> string \<Rightarrow> trigger_registry \<Rightarrow> trigger_registry" where
  "clipboard_tick intervalId currentContent now reg =
     (if IntervalTimer intervalId \<notin> h_resource ` set (handlers reg) then reg
      else
        (case map_of (closures reg) intervalId of
           None \<Rightarrow> reg
         | Some c \<Rightarrow>
             (case clipboard_poll c currentContent now of
                (result, c1) \<Rightarrow>
                  (let reg1 = reg\<lparr>closures := AList.update intervalId c1 (closures reg)\<rparr>
                   in case result of
                        None \<Rightarrow> reg1
                      | Some ctx \<Rightarrow> fire (IntervalTimer intervalId) ctx reg1))))"

text \<open>
  What reaches a callback. A croner job, a global shortcut, the debounce flush that the
  events of a watcher schedule and an interval timer each run the one callback they were
  created with. \<open>powerMonitor\<close> and \<open>app\<close> are event emitters: an emitted event
  runs every listener that was added for it, in the order of the \<open>on\<close> calls.
  \<open>listens sig r\<close> says that the callback installed on resource \<open>r\<close> runs on the
  signal \<open>sig\<close>, and \<open>host_emits\<close> is the host delivering a signal at a moment when
  the callbacks' own tests pass: every callback that listens calls \<open>onTrigger\<close> once,
  with the context \<open>ctx\<close> it builds.
\<close>

datatype host_signal =
    CronTick nat
  | ShortcutPressed string
  | DebounceFlush nat
  | PowerSignal string
  | AppSignal string
  | IntervalTick nat

fun listens :: "host_signal \<Rightarrow> resource \<Rightarrow> bool" where
  "listens (CronTick job) r = (r = CronJob job)"
| "listens (ShortcutPressed accel) r = (r = GlobalShortcut accel)"
| "listens (DebounceFlush watcher) r = (r = FsWatcher watcher)"
| "listens (PowerSignal e) r = (case r of PowerListener e' h \<Rightarrow> e' = e | _ \<Rightarrow> False)"
| "listens (AppSignal e) r = (case r of AppListener e' h \<Rightarrow> e' = e | _ \<Rightarrow> False)"
| "listens (IntervalTick intervalId) r = (r = IntervalTimer intervalId)"

definition host_emits :: "host_signal \<Rightarrow> trigger_context \<Rightarrow> trigger_registry \<Rightarrow> trigger_registry" where
  "host_emits sig ctx reg =
     reg\<lparr>fired := fired reg @
            map (\<lambda>h. \<lparr>tc_workspaceId = h_workspaceId h, tc_automationId = h_automationId h,
                      tc_triggeredBy = h_type h, tc_triggerContext = ctx\<rparr>)
                (filter (\<lambda>h. listens sig (h_resource h)) (handlers reg))\<rparr>"

text \<open>The resources on which callbacks of an automation are installed, in installation order.\<close>

definition subscriptions :: "string \<Rightarrow> trigger_registry \<Rightarrow> resource list" where
  "subscriptions automationId reg =
     map h_resource (filter (\<lambda>h. h_automationId h = automationId) (handlers reg))"

text \<open>
  The \<open>switch\<close> of \<open>registerAppEventTrigger\<close> (lines 820 to 838) on the names that add
  a listener: the Electron event of a window event; \<open>app-ready\<close> and unknown names add none.
\<close>

definition window_event :: "string \<Rightarrow> string option" where
  "window_event eventName =
     (if eventName = ''window-focus'' then Some ''browser-window-focus''
      else if eventName = ''window-blur'' then Some ''browser-window-blur'' else None)"

section \<open>Automation manager (automation-manager.ts)\<close>

text \<open>
  The manager's state: its two tables (JavaScript \<open>Map\<close>s, as association lists in
  insertion order), the trigger registry it owns, the record store, the pending
  \<open>setTimeout\<close> timers of the host (handle, run id, delay in milliseconds), whether its
  listener is attached to the session manager, and the trace of what it asked of its
  collaborators (\<open>effects\<close>). The inputs from outside are part of the state:
  \<open>workspaces\<close> is \<open>getWorkspaceByNameOrId\<close>, \<open>stringify\<close> is
  \<open>JSON.stringify(_, null, 2)\<close>, and \<open>clock\<close> gives the successive readings of the
  system clock (milliseconds and ISO string), \<open>ticks\<close> counting the readings taken;
  \<open>ids\<close> gives the successive results of \<open>generateId()\<close>.
\<close>

record Workspace =
  ws_rootPath :: string
  ws_name :: string

record ActiveRun =
  ar_runId :: string
  ar_automationId :: string
  ar_workspaceId :: string
  ar_workspaceRoot :: string
  ar_sessionId :: string
  ar_startTime :: nat
  ar_timeoutTimer :: "nat option"

record SessionOptions =
  so_permissionMode :: PermissionMode
  so_model :: "string option"
  so_workingDirectory :: string
  so_hidden :: bool

datatype AutomationEvent =
    run_started AutomationRun
  | run_completed AutomationRun
  | run_failed AutomationRun
  | run_cancelled AutomationRun

text \<open>
  The warnings and errors the manager logs, with the strings they interpolate.
  Informational log lines are left out.
\<close>

datatype log_line =
    CannotCancelRun string
  | RunTimedOut string
  | RunFailedToStart string string
  | SessionErrored string string "string option"
  | FailedToCancelTimedOutSession string

datatype effect =
    BroadcastEvent AutomationEvent
  | BroadcastAutomationsChanged "Automation list"
  | CreateSession string SessionOptions
  | SetSessionSources string "string list"
  | SendMessage string string
  | CancelProcessing string
  | LogWarn log_line
  | LogError log_line

record manager =
  workspaces :: "string \<Rightarrow> Workspace option"
  stringify :: "trigger_context \<Rightarrow> string"
  clock :: "nat \<Rightarrow> nat \<times> string"
  ticks :: nat
  ids :: "nat \<Rightarrow> string"
  ids_taken :: nat
  disk :: store
  activeRuns :: "(string \<times> ActiveRun) list"
  sessionToRun :: "(string \<times> string) list"
  timers :: "(nat \<times> string \<times> int) list"
  next_timer :: nat
  listening :: bool
  triggerRegistry :: trigger_registry
  effects :: "effect list"

definition maxConcurrentRuns :: nat where
  "maxConcurrentRuns = 2"

definition emit :: "effect \<Rightarrow> manager \<Rightarrow> manager" where
  "emit e s = s\<lparr>effects := effects s @ [e]\<rparr>"

text \<open>\<open>Date.now()\<close> and \<open>new Date().toISOString()\<close>: the current reading; \<open>tick\<close> moves to the next.\<close>

definition Date_now :: "manager \<Rightarrow> nat" where
  "Date_now s = fst (clock s (ticks s))"

definition toISOString :: "manager \<Rightarrow> string" where
  "toISOString s = snd (clock s (ticks s))"

definition tick :: "manager \<Rightarrow> manager" where
  "tick s = s\<lparr>ticks := Suc (ticks s)\<rparr>"

definition generateId :: "manager \<Rightarrow> string" where
  "generateId s = ids s (ids_taken s)"

definition setTimeout :: "string \<Rightarrow> int \<Rightarrow> manager \<Rightarrow> nat \<times> manager" where
  "setTimeout runId ms s =
     (next_timer s,
      s\<lparr>timers := AList.update (next_timer s) (runId, ms) (timers s),
        next_timer := Suc (next_timer s)\<rparr>)"

definition clearTimeout :: "nat \<Rightarrow> manager \<Rightarrow> manager" where
  "clearTimeout t s = s\<lparr>timers := AList.delete t (timers s)\<rparr>"

definition broadcastAutomationEvent :: "AutomationEvent \<Rightarrow> manager \<Rightarrow> manager" where
  "broadcastAutomationEvent event s = emit (BroadcastEvent event) s"

definition broadcastAutomationsChanged :: "string \<Rightarrow> manager \<Rightarrow> manager" where
  "broadcastAutomationsChanged workspaceRoot s =
     emit (BroadcastAutomationsChanged (loadAutomations workspaceRoot (disk s))) s"

text \<open>The status argument of \<open>completeRun\<close> is \<open>'success' | 'failure' | 'cancelled'\<close>.\<close>

datatype FinalStatus = success | failure | cancelled

fun run_status :: "FinalStatus \<Rightarrow> AutomationRunStatus" where
  "run_status success = Success"
| "run_status failure = Failure"
| "run_status cancelled = Cancelled"

fun eventType :: "FinalStatus \<Rightarrow> AutomationRun \<Rightarrow> AutomationEvent" where
  "eventType success = run_completed"
| "eventType cancelled = run_cancelled"
| "eventType failure = run_failed"

text \<open>\<open>error || null\<close>: an absent or empty message becomes \<open>null\<close>.\<close>

definition or_null :: "string option \<Rightarrow> string option" where
  "or_null error = (case error of None \<Rightarrow> None | Some e \<Rightarrow> if e = [] then None else Some e)"

definition completeRun :: "string \<Rightarrow> FinalStatus \<Rightarrow> string option \<Rightarrow> manager \<Rightarrow> manager" where
  "completeRun runId status error s =
     (case map_of (activeRuns s) runId of
        None \<Rightarrow> s
      | Some active \<Rightarrow>
          (let completedAt = toISOString s;
               s1 = tick s;
               (updatedRun, fs1) =
                  updateRun (ar_workspaceRoot active) runId
                    (no_updates\<lparr>u_status := Some (run_status status),
                                u_completedAt := Some (Some completedAt),
                                u_error := Some (or_null error)\<rparr>) (disk s1);
               s2 = s1\<lparr>disk := fs1\<rparr>;
               s3 = (case updatedRun of
                       None \<Rightarrow> s2
                     | Some updated \<Rightarrow>
                         (let s2a = tick (s2\<lparr>disk := updateAutomationAfterRun (ar_workspaceRoot active)
                                                (ar_automationId active) updated (toISOString s2) (disk s2)\<rparr>);
                              s2b = broadcastAutomationEvent (eventType status updated) s2a
                          in broadcastAutomationsChanged (ar_workspaceRoot active) s2b));
               s4 = (case ar_timeoutTimer active of
                       None \<Rightarrow> s3
                     | Some t \<Rightarrow> clearTimeout t s3)
           in s4\<lparr>sessionToRun := AList.delete (ar_sessionId active) (sessionToRun s4),
                 activeRuns := AList.delete runId (activeRuns s4)\<rparr>))"

text \<open>
  \<open>handleTimeout\<close>. The promise returned by \<open>cancelProcessing\<close> settles after the
  synchronous body has run: \<open>cancel_rejected\<close> is \<open>None\<close> when it resolves and the
  rejection's text when it rejects, which the \<open>.catch\<close> callback logs.
\<close>

definition handleTimeout :: "string \<Rightarrow> string option \<Rightarrow> manager \<Rightarrow> manager" where
  "handleTimeout runId cancel_rejected s =
     (case map_of (activeRuns s) runId of
        None \<Rightarrow> s
      | Some active \<Rightarrow>
          (let s1 = emit (LogWarn (RunTimedOut runId)) s;
               s2 = emit (CancelProcessing (ar_sessionId active)) s1;
               s3 = completeRun runId failure (Some ''Automation timed out'') s2
           in case cancel_rejected of
                None \<Rightarrow> s3
              | Some err \<Rightarrow> emit (LogError (FailedToCancelTimedOutSession err)) s3))"

text \<open>The host firing a pending timer: it leaves the timer table and its callback runs.\<close>

definition timer_fires :: "nat \<Rightarrow> string option \<Rightarrow> manager \<Rightarrow> manager" where
  "timer_fires t cancel_rejected s =
     (case map_of (timers s) t of
        None \<Rightarrow> s
      | Some (runId, ms) \<Rightarrow>
          handleTimeout runId cancel_rejected (s\<lparr>timers := AList.delete t (timers s)\<rparr>))"

text \<open>A session event is untyped (\<open>any\<close>); the handler reads three of its properties.\<close>

record session_event =
  ev_type :: string
  ev_sessionId :: "string option"
  ev_error :: "string option"

definition handleSessionEvent :: "session_event \<Rightarrow> manager \<Rightarrow> manager" where
  "handleSessionEvent event s =
     (if ev_type event \<noteq> ''complete'' \<and> ev_type event \<noteq> ''error'' then s
      else
        (case ev_sessionId event of
           None \<Rightarrow> s
         | Some sessionId \<Rightarrow>
             if sessionId = [] then s
             else
               (case map_of (sessionToRun s) sessionId of
                  None \<Rightarrow> s
                | Some runId \<Rightarrow>
                    if runId = [] then s
                    else
                      (case map_of (activeRuns s) runId of
                         None \<Rightarrow> s
                       | Some active \<Rightarrow>
                           if ev_type event = ''complete'' then completeRun runId success None s
                           else
                             completeRun runId failure (ev_error event)
                               (emit (LogError (SessionErrored sessionId runId (ev_error event))) s)))))"

text \<open>
  The session manager delivering an event to its main-process listeners: the manager's
  handler runs only while it is attached.
\<close>

definition session_manager_emits :: "session_event \<Rightarrow> manager \<Rightarrow> manager" where
  "session_manager_emits event s = (if listening s then handleSessionEvent event s else s)"

text \<open>
  \<open>cancelRun\<close> awaits \<open>cancelProcessing\<close>: \<open>cancelRun_begin\<close> runs up to the await
  (\<open>Inl False\<close> is the early return, \<open>Inr sessionId\<close> the suspension) and
  \<open>cancelRun_resume\<close> from it, with \<open>Inl\<close> for the exception that a rejection raises.
\<close>

definition cancelRun_begin :: "string \<Rightarrow> manager \<Rightarrow> (bool + string) \<times> manager" where
  "cancelRun_begin runId s =
     (case map_of (activeRuns s) runId of
        None \<Rightarrow> (Inl False, emit (LogWarn (CannotCancelRun runId)) s)
      | Some active \<Rightarrow> (Inr (ar_sessionId active), emit (CancelProcessing (ar_sessionId active)) s))"

definition cancelRun_resume :: "string \<Rightarrow> string option \<Rightarrow> manager \<Rightarrow> (string + bool) \<times> manager" where
  "cancelRun_resume runId cancel_rejected s =
     (case cancel_rejected of
        Some err \<Rightarrow> (Inl err, s)
      | None \<Rightarrow> (Inr True, completeRun runId cancelled None s))"

definition cancelRun :: "string \<Rightarrow> string option \<Rightarrow> manager \<Rightarrow> (string + bool) \<times> manager" where
  "cancelRun runId cancel_rejected s =
     (case cancelRun_begin runId s of
        (Inl b, s1) \<Rightarrow> (Inr b, s1)
      | (Inr sessionId, s1) \<Rightarrow> cancelRun_resume runId cancel_rejected s1)"

definition getActiveRunCount :: "manager \<Rightarrow> nat" where
  "getActiveRunCount s = length (activeRuns s)"

definition isAutomationRunning :: "string \<Rightarrow> manager \<Rightarrow> bool" where
  "isAutomationRunning automationId s =
     list_ex (\<lambda>(runId, active). ar_automationId active = automationId) (activeRuns s)"

subsection \<open>executeAutomation\<close>

text \<open>
  \<open>executeAutomation\<close> is an \<open>async\<close> function with three \<open>await\<close>s. Between two
  of them it runs without interruption; at an \<open>await\<close> it is suspended and other callbacks
  of the event loop may run. The model has one function per uninterrupted stretch. An
  \<open>exec_point\<close> is where a call stands: suspended at one of the awaits, with its local
  variables, or finished by \<open>return\<close> or \<open>throw\<close>. What the session manager answers
  at an await is the input of the next stretch: \<open>Inl\<close> the text of a rejection, \<open>Inr\<close>
  the value.
\<close>

datatype exec_error =
    WorkspaceNotFound string
  | AutomationNotFound string
  | ConcurrencyLimitReached nat
  | SetupError string

record exec_locals =
  xl_workspaceId :: string
  xl_workspace :: Workspace
  xl_automationId :: string
  xl_automation :: Automation
  xl_triggerContext :: "trigger_context option"
  xl_run :: AutomationRun

datatype exec_point =
    AwaitCreateSession exec_locals
  | AwaitSetSessionSources exec_locals string AutomationRun
  | AwaitSendMessage exec_locals string AutomationRun
  | Returned AutomationRun
  | Thrown exec_error

definition timeoutMs :: "Automation \<Rightarrow> int" where
  "timeoutMs automation =
     (case ac_timeoutSeconds (a_actionConfig automation) of
        None \<Rightarrow> 300
      | Some n \<Rightarrow> if n = 0 then 300 else n) * 1000"

definition session_options :: "Automation \<Rightarrow> SessionOptions" where
  "session_options automation =
     \<lparr>so_permissionMode =
        (case ac_permissionMode (a_actionConfig automation) of None \<Rightarrow> Safe | Some m \<Rightarrow> m),
      so_model = ac_model (a_actionConfig automation),
      so_workingDirectory =
        (case ac_workingDirectory (a_actionConfig automation) of
           None \<Rightarrow> ''user_default''
         | Some d \<Rightarrow> if d = [] then ''user_default'' else d),
      so_hidden = True\<rparr>"

definition build_prompt :: "manager \<Rightarrow> Automation \<Rightarrow> trigger_context option \<Rightarrow> string" where
  "build_prompt s automation triggerContext =
     (case triggerContext of
        None \<Rightarrow> a_prompt automation
      | Some ctx \<Rightarrow>
          if length ctx > 0 then
            a_prompt automation @ [CHR 0x0A, CHR 0x0A] @ ''---'' @ [CHR 0x0A] @
              ''Trigger context:'' @ [CHR 0x0A] @ stringify s ctx
          else a_prompt automation)"

text \<open>The \<open>catch\<close> block, entered with the message of the caught error.\<close>

definition exec_catch :: "exec_locals \<Rightarrow> string \<Rightarrow> manager \<Rightarrow> exec_point \<times> manager" where
  "exec_catch l errorMessage s =
     (let s0 = emit (LogError (RunFailedToStart (r_id (xl_run l)) errorMessage)) s;
          completedAt = toISOString s0;
          s1 = tick s0;
          (failedRun, fs1) =
             updateRun (ws_rootPath (xl_workspace l)) (r_id (xl_run l))
               (no_updates\<lparr>u_status := Some Failure,
                           u_completedAt := Some (Some completedAt),
                           u_error := Some (Some errorMessage)\<rparr>) (disk s1);
          s2 = s1\<lparr>disk := fs1\<rparr>;
          s3 = (case failedRun of
                  None \<Rightarrow> s2
                | Some failed \<Rightarrow>
                    (let s2a = tick (s2\<lparr>disk := updateAutomationAfterRun (ws_rootPath (xl_workspace l))
                                           (xl_automationId l) failed (toISOString s2) (disk s2)\<rparr>);
                         s2b = broadcastAutomationEvent (run_failed failed) s2a
                     in broadcastAutomationsChanged (ws_rootPath (xl_workspace l)) s2b))
      in (Thrown (SetupError errorMessage), s3))"

text \<open>From the call to the first await (lines 157 to 182).\<close>

definition exec_begin ::
  "string \<Rightarrow> string \<Rightarrow> TriggerType \<Rightarrow> trigger_context option \<Rightarrow> manager \<Rightarrow> exec_point \<times> manager" where
  "exec_begin workspaceId automationId triggeredBy triggerContext s =
     (case workspaces s workspaceId of
        None \<Rightarrow> (Thrown (WorkspaceNotFound workspaceId), s)
      | Some workspace \<Rightarrow>
          (case getAutomation (ws_rootPath workspace) automationId (disk s) of
             None \<Rightarrow> (Thrown (AutomationNotFound automationId), s)
           | Some automation \<Rightarrow>
               if length (activeRuns s) \<ge> maxConcurrentRuns then
                 (Thrown (ConcurrencyLimitReached maxConcurrentRuns), s)
               else
                 (let (run, fs1) =
                        createRun (ws_rootPath workspace) automationId triggeredBy triggerContext
                          (generateId s) (toISOString s) (disk s);
                      s1 = tick (s\<lparr>disk := fs1, ids_taken := Suc (ids_taken s)\<rparr>);
                      s2 = broadcastAutomationEvent (run_started run) s1;
                      s3 = emit (CreateSession workspaceId (session_options automation)) s2
                  in (AwaitCreateSession
                        \<lparr>xl_workspaceId = workspaceId, xl_workspace = workspace,
                         xl_automationId = automationId, xl_automation = automation,
                         xl_triggerContext = triggerContext, xl_run = run\<rparr>, s3))))"

text \<open>The call of \<open>sendMessage\<close> (lines 222 to 229).\<close>

definition exec_send :: "exec_locals \<Rightarrow> string \<Rightarrow> AutomationRun \<Rightarrow> manager \<Rightarrow> exec_point \<times> manager" where
  "exec_send l sessionId updatedRun s =
     (AwaitSendMessage l sessionId updatedRun,
      emit (SendMessage sessionId (build_prompt s (xl_automation l) (xl_triggerContext l))) s)"

text \<open>From the first await to the second or third (lines 182 to 229).\<close>

definition exec_after_createSession ::
  "exec_locals \<Rightarrow> string + string \<Rightarrow> manager \<Rightarrow> exec_point \<times> manager" where
  "exec_after_createSession l answer s =
     (case answer of
        Inl err \<Rightarrow> exec_catch l err s
      | Inr sessionId \<Rightarrow>
          (let (updatedRun, fs1) =
                 updateRun (ws_rootPath (xl_workspace l)) (r_id (xl_run l))
                   (no_updates\<lparr>u_status := Some Running, u_sessionId := Some (Some sessionId)\<rparr>)
                   (disk s);
               s1 = s\<lparr>disk := fs1\<rparr>
           in case updatedRun of
                None \<Rightarrow> exec_catch l ''Failed to update run record'' s1
              | Some updated \<Rightarrow>
                  (let startTime = Date_now s1;
                       s2 = tick s1;
                       (timer, s3) = setTimeout (r_id (xl_run l)) (timeoutMs (xl_automation l)) s2;
                       activeRun = \<lparr>ar_runId = r_id (xl_run l),
                                    ar_automationId = xl_automationId l,
                                    ar_workspaceId = xl_workspaceId l,
                                    ar_workspaceRoot = ws_rootPath (xl_workspace l),
                                    ar_sessionId = sessionId,
                                    ar_startTime = startTime,
                                    ar_timeoutTimer = Some timer\<rparr>;
                       s4 = s3\<lparr>activeRuns := AList.update (r_id (xl_run l)) activeRun (activeRuns s3)\<rparr>;
                       s5 = s4\<lparr>sessionToRun := AList.update sessionId (r_id (xl_run l)) (sessionToRun s4)\<rparr>
                   in case ac_sourceSlugs (a_actionConfig (xl_automation l)) of
                        None \<Rightarrow> exec_send l sessionId updated s5
                      | Some slugs \<Rightarrow>
                          if length slugs > 0 then
                            (AwaitSetSessionSources l sessionId updated,
                             emit (SetSessionSources sessionId slugs) s5)
                          else exec_send l sessionId updated s5)))"

definition exec_after_setSessionSources ::
  "exec_locals \<Rightarrow> string \<Rightarrow> AutomationRun \<Rightarrow> string option \<Rightarrow> manager \<Rightarrow> exec_point \<times> manager" where
  "exec_after_setSessionSources l sessionId updatedRun rejected s =
     (case rejected of
        Some err \<Rightarrow> exec_catch l err s
      | None \<Rightarrow> exec_send l sessionId updatedRun s)"

definition exec_after_sendMessage ::
  "exec_locals \<Rightarrow> string \<Rightarrow> AutomationRun \<Rightarrow> string option \<Rightarrow> manager \<Rightarrow> exec_point \<times> manager" where
  "exec_after_sendMessage l sessionId updatedRun rejected s =
     (case rejected of
        Some err \<Rightarrow> exec_catch l err s
      | None \<Rightarrow> (Returned updatedRun, s))"

text \<open>
  Resuming a suspended call with the answer to what it awaits. The promises of
  \<open>setSessionSources\<close> and \<open>sendMessage\<close> resolve to no value, so only a rejection
  (\<open>Inl\<close>) is looked at there. A call that has finished stays where it is.
\<close>

definition rejection :: "string + string \<Rightarrow> string option" where
  "rejection answer = (case answer of Inl err \<Rightarrow> Some err | Inr v \<Rightarrow> None)"

fun exec_resume :: "exec_point \<Rightarrow> string + string \<Rightarrow> manager \<Rightarrow> exec_point \<times> manager" where
  "exec_resume (AwaitCreateSession l) answer s = exec_after_createSession l answer s"
| "exec_resume (AwaitSetSessionSources l sessionId updatedRun) answer s =
     exec_after_setSessionSources l sessionId updatedRun (rejection answer) s"
| "exec_resume (AwaitSendMessage l sessionId updatedRun) answer s =
     exec_after_sendMessage l sessionId updatedRun (rejection answer) s"
| "exec_resume (Returned run) answer s = (Returned run, s)"
| "exec_resume (Thrown e) answer s = (Thrown e, s)"

text \<open>
  The answers of the session manager to one call: to \<open>createSession\<close>, to
  \<open>setSessionSources\<close> and to \<open>sendMessage\<close>.
\<close>

record session_answers =
  createSession_answer :: "string + string"
  setSessionSources_answer :: "string + string"
  sendMessage_answer :: "string + string"

fun answer_to :: "exec_point \<Rightarrow> session_answers \<Rightarrow> string + string" where
  "answer_to (AwaitCreateSession l) answers = createSession_answer answers"
| "answer_to (AwaitSetSessionSources l sessionId updatedRun) answers = setSessionSources_answer answers"
| "answer_to (AwaitSendMessage l sessionId updatedRun) answers = sendMessage_answer answers"
| "answer_to (Returned run) answers = Inr []"
| "answer_to (Thrown e) answers = Inr []"

definition exec_continue :: "session_answers \<Rightarrow> exec_point \<times> manager \<Rightarrow> exec_point \<times> manager" where
  "exec_continue answers ps = exec_resume (fst ps) (answer_to (fst ps) answers) (snd ps)"

text \<open>
  A call that no other callback interleaves with: the first stretch, then one resumption for
  each of the at most three awaits. The result is \<open>Returned\<close> or \<open>Thrown\<close>.
\<close>

definition executeAutomation ::
  "string \<Rightarrow> string \<Rightarrow> TriggerType \<Rightarrow> trigger_context option \<Rightarrow> session_answers \<Rightarrow> manager
     \<Rightarrow> exec_point \<times> manager" where
  "executeAutomation workspaceId automationId triggeredBy triggerContext answers s =
     exec_continue answers (exec_continue answers (exec_continue answers
       (exec_begin workspaceId automationId triggeredBy triggerContext s)))"

subsection \<open>cleanup\<close>

text \<open>The body of the loop over the active runs (lines 412 to 427).\<close>

definition cleanup_run :: "string \<times> ActiveRun \<Rightarrow> manager \<Rightarrow> manager" where
  "cleanup_run entry s =
     (case entry of
        (runId, active) \<Rightarrow>
          (let s1 = (case ar_timeoutTimer active of
                       None \<Rightarrow> s
                     | Some t \<Rightarrow> clearTimeout t s);
               completedAt = toISOString s1;
               s2 = tick s1;
               (updatedRun, fs1) =
                  updateRun (ar_workspaceRoot active) runId
                    (no_updates\<lparr>u_status := Some Cancelled,
                                u_completedAt := Some (Some completedAt),
                                u_error := Some (Some ''App shutting down'')\<rparr>) (disk s2);
               s3 = s2\<lparr>disk := fs1\<rparr>
           in case updatedRun of
                None \<Rightarrow> s3
              | Some updated \<Rightarrow>
                  tick (s3\<lparr>disk := updateAutomationAfterRun (ar_workspaceRoot active)
                                   (ar_automationId active) updated (toISOString s3) (disk s3)\<rparr>)))"

definition cleanup :: "manager \<Rightarrow> manager" where
  "cleanup s =
     (let s1 = s\<lparr>triggerRegistry := unregisterAll (triggerRegistry s)\<rparr>;
          s2 = fold cleanup_run (activeRuns s1) s1
      in s2\<lparr>activeRuns := [], sessionToRun := [], listening := False\<rparr>)"

section \<open>Example states\<close>

text \<open>
  One workspace \<open>w1\<close> rooted at \<open>/ws\<close> with one automation \<open>auto1\<close> (manual
  trigger, one second of timeout), no run yet, an empty registry, and a manager that has
  been initialised (its listener is attached). The clock's readings and the generated ids
  are pairwise distinct.
\<close>

definition example_automation :: Automation where
  "example_automation =
     \<lparr>a_id = ''auto1'', a_name = ''Digest'', a_prompt = ''Summarise the inbox'',
      a_triggerConfig = ManualTriggerConfig,
      a_actionConfig = \<lparr>ac_model = None, ac_permissionMode = None, ac_maxTurns = None,
                        ac_timeoutSeconds = Some 1, ac_sourceSlugs = None,
                        ac_skillSlugs = None, ac_workingDirectory = None\<rparr>,
      a_enabled = True, a_lastRunAt = None, a_nextRunAt = None,
      a_createdAt = ''T0'', a_updatedAt = ''T0'', a_workspaceId = ''w1'',
      a_runCount = 0, a_lastStatus = None\<rparr>"

definition example_store :: store where
  "example_store =
     \<lparr>configs = (\<lambda>root. if root = ''/ws'' then [example_automation] else []),
      run_files = (\<lambda>key. None),
      run_writes = []\<rparr>"

definition example_run :: AutomationRun where
  "example_run =
     \<lparr>r_id = ''run1'', r_automationId = ''auto1'', r_status = Running,
      r_startedAt = ''T1'', r_completedAt = None, r_sessionId = Some ''sess1'',
      r_summary = None, r_error = None, r_triggeredBy = Manual, r_triggerContext = None\<rparr>"

definition empty_registry :: trigger_registry where
  "empty_registry = \<lparr>triggers = [], handlers = [], next_handle = 0, closures = [], fired = []\<rparr>"

definition example_manager :: manager where
  "example_manager =
     \<lparr>workspaces = (\<lambda>w. if w = ''w1'' then Some \<lparr>ws_rootPath = ''/ws'', ws_name = ''Work''\<rparr>
                         else None),
      stringify = (\<lambda>ctx. ''{}''),
      clock = (\<lambda>k. (k, CHR ''T'' # replicate k (CHR ''+''))),
      ticks = 0,
      ids = (\<lambda>k. ''run'' @ replicate k (CHR ''x'')),
      ids_taken = 0,
      disk = example_store,
      activeRuns = [], sessionToRun = [], timers = [], next_timer = 0,
      listening = True,
      triggerRegistry = empty_registry,
      effects = []\<rparr>"

text \<open>The same manager with two runs in its active-run table.\<close>

definition busy_manager :: manager where
  "busy_manager =
     example_manager\<lparr>activeRuns :=
        [(''runA'', \<lparr>ar_runId = ''runA'', ar_automationId = ''auto1'', ar_workspaceId = ''w1'',
                     ar_workspaceRoot = ''/ws'', ar_sessionId = ''sessA'', ar_startTime = 0,
                     ar_timeoutTimer = None\<rparr>),
         (''runB'', \<lparr>ar_runId = ''runB'', ar_automationId = ''auto1'', ar_workspaceId = ''w1'',
                     ar_workspaceRoot = ''/ws'', ar_sessionId = ''sessB'', ar_startTime = 0,
                     ar_timeoutTimer = None\<rparr>)]\<rparr>"

text \<open>
  A host for the examples: it grants every subscription, the clipboard holds \<open>old\<close>
  and the time is \<open>T0\<close>. Its \<open>RegExp\<close> stands in for the real constructor on the two
  kinds of pattern the examples use: a pattern of lower-case letters compiles to the test
  "the string contains it", and the lone opening parenthesis is rejected, as the real
  constructor rejects it (unterminated group); every other pattern is treated as
  rejected.
\<close>

fun contains :: "string \<Rightarrow> string \<Rightarrow> bool" where
  "contains p [] = (p = [])"
| "contains p (c # cs) = (take (length p) (c # cs) = p \<or> contains p cs)"

definition example_env :: host_env where
  "example_env =
     \<lparr>cron_accepts = (\<lambda>c tz. True), shortcut_granted = (\<lambda>accel. True),
      existsSync = (\<lambda>p. True), watch_succeeds = (\<lambda>p. True),
      RegExp = (\<lambda>p. if p \<noteq> [] \<and> list_all (\<lambda>c. c \<in> set ''abcdefghijklmnopqrstuvwxyz'') p
                      then Some (contains p) else None),
      clipboard_readText = ''old'',
      now_iso = ''T0''\<rparr>"

definition clipboard_automation :: "string option \<Rightarrow> Automation" where
  "clipboard_automation pat =
     example_automation\<lparr>a_triggerConfig := ClipboardTriggerConfig pat None\<rparr>"

definition schedule_automation :: Automation where
  "schedule_automation =
     example_automation\<lparr>a_triggerConfig := ScheduleTriggerConfig (Some ''0 9 * * *'') None None\<rparr>"

definition hotkey_automation :: Automation where
  "hotkey_automation =
     example_automation\<lparr>a_triggerConfig := HotkeyTriggerConfig ''Control+Shift+A''\<rparr>"

text \<open>
  The local variables of a call for \<open>auto1\<close> that has been admitted from
  \<open>example_manager\<close>, answers of the session manager that all resolve, and the managers
  after one and after two such calls have run to their end.
\<close>

definition example_locals :: exec_locals where
  "example_locals =
     \<lparr>xl_workspaceId = ''w1'', xl_workspace = \<lparr>ws_rootPath = ''/ws'', ws_name = ''Work''\<rparr>,
      xl_automationId = ''auto1'', xl_automation = example_automation,
      xl_triggerContext = None,
      xl_run = \<lparr>r_id = ''run'', r_automationId = ''auto1'', r_status = Pending,
                r_startedAt = ''T'', r_completedAt = None, r_sessionId = None,
                r_summary = None, r_error = None, r_triggeredBy = Manual,
                r_triggerContext = None\<rparr>\<rparr>"

definition all_resolve :: session_answers where
  "all_resolve = \<lparr>createSession_answer = Inr ''sess1'', setSessionSources_answer = Inr [],
                  sendMessage_answer = Inr []\<rparr>"

definition running_manager :: manager where
  "running_manager = snd (executeAutomation ''w1'' ''auto1'' Manual None all_resolve example_manager)"

definition two_running :: manager where
  "two_running =
     snd (executeAutomation ''w1'' ''auto1'' Manual None
            (all_resolve\<lparr>createSession_answer := Inr ''sess2''\<rparr>) running_manager)"





text \<open>Automations with the id \<open>auto1\<close> and a power-event or a folder-action trigger.\<close>

definition power_automation :: "string list \<Rightarrow> Automation" where
  "power_automation evs = example_automation\<lparr>a_triggerConfig := PowerEventTriggerConfig evs\<rparr>"

definition folder_automation :: Automation where
  "folder_automation =
     example_automation\<lparr>a_triggerConfig :=
        FolderActionTriggerConfig ''/inbox'' None None None None None\<rparr>"

section \<open>Invariants\<close>

text \<open>
  \<open>store_ok\<close>: every run file holds a run whose id is the file's name, which is how
  \<open>saveRun\<close> names the files it writes. \<open>active_recorded\<close>: the store is in that state
  and every entry of the active-run table has its run file. \<open>shutdown_run\<close> is the record
  that one pass of the loop of \<open>cleanup\<close> writes over \<open>run\<close>.
\<close>

definition store_ok :: "store \<Rightarrow> bool" where
  "store_ok fs = (\<forall>root id run. run_files fs (root, id) = Some run \<longrightarrow> r_id run = id)"

definition active_recorded :: "manager \<Rightarrow> bool" where
  "active_recorded s =
     (store_ok (disk s) \<and>
      (\<forall>entry \<in> set (activeRuns s).
         getRun (ar_workspaceRoot (snd entry)) (fst entry) (disk s) \<noteq> None))"

definition shutdown_run :: "AutomationRun \<Rightarrow> string \<Rightarrow> AutomationRun" where
  "shutdown_run run completedAt =
     run\<lparr>r_status := Cancelled, r_completedAt := Some completedAt,
         r_error := Some ''App shutting down''\<rparr>"

text \<open>
  \<open>keeps_records\<close>: a later store keeps the run files of an earlier one. \<open>reachable\<close>:
  the states the manager gets into from a start with an empty active-run table, by any
  interleaving of the uninterrupted stretches of any calls, of session events, of timers
  firing and of shutdown.
\<close>

definition keeps_records :: "store \<Rightarrow> store \<Rightarrow> bool" where
  "keeps_records fs fs' =
     ((store_ok fs \<longrightarrow> store_ok fs') \<and>
      (\<forall>key. run_files fs key \<noteq> None \<longrightarrow> run_files fs' key \<noteq> None))"

inductive reachable :: "manager \<Rightarrow> bool" where
  initial: "activeRuns s = [] \<Longrightarrow> store_ok (disk s) \<Longrightarrow> reachable s"
| call_begins: "reachable s \<Longrightarrow>
    reachable (snd (exec_begin workspaceId automationId triggeredBy triggerContext s))"
| call_resumes: "reachable s \<Longrightarrow> reachable (snd (exec_resume p answer s))"
| cancel_begins: "reachable s \<Longrightarrow> reachable (snd (cancelRun_begin runId s))"
| cancel_resumes: "reachable s \<Longrightarrow> reachable (snd (cancelRun_resume runId cancel_rejected s))"
| session_event: "reachable s \<Longrightarrow> reachable (session_manager_emits event s)"
| timeout: "reachable s \<Longrightarrow> reachable (timer_fires t cancel_rejected s)"
| shutdown: "reachable s \<Longrightarrow> reachable (cleanup s)"

text \<open>
  The registry's invariant \<open>reg_inv\<close>: the keys of the trigger table are distinct, no two
  callbacks sit on the same resource, the numbered handles in use are below the next one to
  be given out, and every installed callback is released by the \<open>stop\<close> closure of the
  table entry of its automation. \<open>installs\<close> says that \<open>reg'\<close> is \<open>reg\<close> with fresh
  callbacks of one automation on the resources \<open>rs\<close> added.
\<close>

fun handle_below :: "nat \<Rightarrow> resource \<Rightarrow> bool" where
  "handle_below n (CronJob h) = (h < n)"
| "handle_below n (GlobalShortcut a) = True"
| "handle_below n (FsWatcher h) = (h < n)"
| "handle_below n (PowerListener e h) = (h < n)"
| "handle_below n (AppListener e h) = (h < n)"
| "handle_below n (IntervalTimer h) = (h < n)"

definition reg_inv :: "trigger_registry \<Rightarrow> bool" where
  "reg_inv reg =
     (distinct (map fst (triggers reg)) \<and>
      distinct (map h_resource (handlers reg)) \<and>
      (\<forall>h \<in> set (handlers reg). handle_below (next_handle reg) (h_resource h)) \<and>
      (\<forall>h \<in> set (handlers reg).
         \<exists>t. map_of (triggers reg) (h_automationId h) = Some t \<and> h_resource h \<in> set (rt_stop t)))"

definition callback :: "Automation \<Rightarrow> TriggerType \<Rightarrow> resource \<Rightarrow> handler" where
  "callback automation ty r =
     \<lparr>h_resource = r, h_workspaceId = a_workspaceId automation,
      h_automationId = a_id automation, h_type = ty\<rparr>"

definition installs :: "Automation \<Rightarrow> TriggerType \<Rightarrow> resource list \<Rightarrow> trigger_registry \<Rightarrow> trigger_registry \<Rightarrow> bool" where
  "installs automation ty rs reg reg' =
     (handlers reg' = handlers reg @ map (callback automation ty) rs \<and>
      distinct rs \<and>
      (\<forall>r \<in> set rs. r \<notin> h_resource ` set (handlers reg)) \<and>
      (\<forall>r \<in> set rs. handle_below (next_handle reg') r) \<and>
      next_handle reg \<le> next_handle reg' \<and>
      triggers reg' = triggers reg)"

definition all_below :: "trigger_registry \<Rightarrow> bool" where
  "all_below reg = (\<forall>h \<in> set (handlers reg). handle_below (next_handle reg) (h_resource h))"

text \<open>What a registration strategy does: it installs callbacks and records them, or neither.\<close>

definition subscribes :: "Automation \<Rightarrow> TriggerType \<Rightarrow> trigger_registry \<Rightarrow> trigger_registry \<Rightarrow> bool" where
  "subscribes a ty reg reg' =
     (\<exists>rs mid. installs a ty rs reg mid \<and>
        (reg' = triggers_set a ty rs mid \<or> (rs = [] \<and> triggers reg' = triggers mid \<and>
           handlers reg' = handlers mid \<and> next_handle reg' = next_handle mid)))"

text \<open>
  The event loop with calls of \<open>executeAutomation\<close> in flight. \<open>suspended p\<close> gives
  the local variables of a call that stands at an await (none for a call that has returned
  or thrown) and \<open>suspend p pool\<close> adds such a call to the pool of suspended calls.
  \<open>interleaving s pool\<close>: the manager is in state \<open>s\<close> with the calls of \<open>pool\<close>
  suspended. Each step is one uninterrupted stretch: a call begins and is suspended at its
  first await, or throws; a suspended call is resumed with the answer to what it awaits and
  is suspended again, returns or throws; \<open>cancelRun\<close> runs up to its await or resumes
  from it (a resumption is allowed at any moment, which covers every moment at which one
  can happen); a session event is delivered; a timer fires; the manager shuts down. At the
  start no run is active, no run file has been written and the ids that \<open>generateId\<close>
  returns are pairwise distinct.
\<close>

fun suspended :: "exec_point \<Rightarrow> exec_locals option" where
  "suspended (AwaitCreateSession l) = Some l"
| "suspended (AwaitSetSessionSources l sessionId updatedRun) = Some l"
| "suspended (AwaitSendMessage l sessionId updatedRun) = Some l"
| "suspended (Returned run) = None"
| "suspended (Thrown e) = None"

definition suspend :: "exec_point \<Rightarrow> exec_point list \<Rightarrow> exec_point list" where
  "suspend p pool = (case suspended p of None \<Rightarrow> pool | Some l \<Rightarrow> pool @ [p])"


text \<open>The statuses written to the run file named \<open>runId\<close>, oldest first.\<close>

definition status_history :: "string \<Rightarrow> manager \<Rightarrow> AutomationRunStatus list" where
  "status_history runId s =
     map (r_status \<circ> snd) (filter (\<lambda>w. snd (fst w) = runId) (run_writes (disk s)))"

text \<open>
  The invariant of an interleaving. \<open>used_ids\<close> are the ids \<open>generateId\<close> has
  returned and \<open>active_ids\<close> the keys of the active-run table. \<open>call_phase\<close> is what
  has been written for the run of a suspended call: while the call awaits
  \<open>createSession\<close>, pending only, and the run is not active; while it awaits
  \<open>setSessionSources\<close> or \<open>sendMessage\<close>, pending and running with the run active, or
  those and one terminal status with the run no longer active. \<open>finished_phase\<close> is what
  has been written for a run whose call has ended, or for an id that no call has created.
  \<open>pool_inv\<close> adds that the runs of suspended calls are pairwise distinct, were given
  ids by \<open>generateId\<close> and have their run file.
\<close>

definition terminal :: "AutomationRunStatus \<Rightarrow> bool" where
  "terminal st = (st = Success \<or> st = Failure \<or> st = Cancelled)"

definition point_run :: "exec_point \<Rightarrow> string" where
  "point_run p = (case suspended p of None \<Rightarrow> [] | Some l \<Rightarrow> r_id (xl_run l))"

definition used_ids :: "manager \<Rightarrow> string set" where
  "used_ids s = ids s ` {..<ids_taken s}"

definition active_ids :: "manager \<Rightarrow> string set" where
  "active_ids s = fst ` set (activeRuns s)"

definition awaits_session :: "exec_point \<Rightarrow> bool" where
  "awaits_session p = (case p of AwaitCreateSession l \<Rightarrow> True | _ \<Rightarrow> False)"

definition call_phase :: "manager \<Rightarrow> exec_point \<Rightarrow> string \<Rightarrow> bool" where
  "call_phase s p runId =
     (if awaits_session p
      then status_history runId s = [Pending] \<and> runId \<notin> active_ids s
      else (runId \<in> active_ids s \<and> status_history runId s = [Pending, Running]) \<or>
           (runId \<notin> active_ids s \<and>
            (\<exists>st. terminal st \<and> status_history runId s = [Pending, Running, st])))"

definition finished_phase :: "manager \<Rightarrow> string \<Rightarrow> bool" where
  "finished_phase s runId =
     ((runId \<in> active_ids s \<longrightarrow>
         status_history runId s = [Pending, Running] \<or>
         status_history runId s = [Pending, Running, Failure]) \<and>
      (runId \<notin> active_ids s \<longrightarrow>
         status_history runId s = [] \<or> status_history runId s = [Pending, Failure] \<or>
         (\<exists>ts. status_history runId s = Pending # Running # ts \<and> ts \<noteq> [] \<and>
               length ts \<le> 2 \<and> (\<forall>st \<in> set ts. terminal st))))"

definition pool_inv :: "manager \<Rightarrow> exec_point list \<Rightarrow> bool" where
  "pool_inv s pool =
     (inj (ids s) \<and> distinct (map fst (activeRuns s)) \<and>
      (\<forall>w \<in> set (run_writes (disk s)). snd (fst w) \<in> used_ids s) \<and>
      active_ids s \<subseteq> used_ids s \<and>
      distinct (map point_run pool) \<and>
      (\<forall>p \<in> set pool. \<exists>l. suspended p = Some l \<and> r_id (xl_run l) \<in> used_ids s \<and>
          getRun (ws_rootPath (xl_workspace l)) (r_id (xl_run l)) (disk s) \<noteq> None \<and>
          call_phase s p (r_id (xl_run l))) \<and>
      (\<forall>runId. runId \<notin> point_run ` set pool \<longrightarrow> finished_phase s runId))"

section \<open>Properties of the storage functions\<close>

lemma findIndex_Some:
  "findIndex P xs = Some i \<Longrightarrow> i < length xs \<and> P (xs ! i) \<and> (\<forall>j<i. \<not> P (xs ! j))"
proof (induction xs arbitrary: i)
  case Nil
  then show ?case by simp
next
  case (Cons x xs)
  show ?case
  proof (cases "P x")
    case True
    with Cons.prems show ?thesis by simp
  next
    case False
    with Cons.prems obtain k where k: "findIndex P xs = Some k" "i = Suc k"
      by (auto split: option.splits)
    from Cons.IH[OF k(1)] False k(2) show ?thesis
      by (auto simp: less_Suc_eq_0_disj)
  qed
qed

lemma findIndex_None: "findIndex P xs = None \<longleftrightarrow> (\<forall>x\<in>set xs. \<not> P x)"
  by (induction xs) (auto split: option.splits)

lemma find_findIndex:
  "find P xs = (case findIndex P xs of None \<Rightarrow> None | Some i \<Rightarrow> Some (xs ! i))"
  by (induction xs) (auto split: option.splits)

lemma find_update_first:
  "findIndex P xs = Some i \<Longrightarrow> P y \<Longrightarrow> find P (xs[i := y]) = Some y"
proof (induction xs arbitrary: i)
  case Nil
  then show ?case by simp
next
  case (Cons x xs)
  then show ?case by (cases i) (auto split: option.splits if_splits)
qed

text \<open>
  Claim C6. For an automation \<open>a\<close> that \<open>getAutomation\<close> finds and any run,
  \<open>updateAutomationAfterRun\<close> rewrites the configuration file of the workspace with
  \<open>a\<close> replaced, at the index where it stands, by \<open>a\<close> with four fields set:
  \<open>lastRunAt\<close> is the run's \<open>completedAt\<close>, or its \<open>startedAt\<close> when
  \<open>completedAt\<close> is null; \<open>lastStatus\<close> is success, failure or running when the run's
  status is, and is kept when the run is cancelled (or pending); \<open>runCount\<close> is one more;
  \<open>updatedAt\<close> is the current time. Every other field of \<open>a\<close>, every other automation
  and every other file are as before, and \<open>getAutomation\<close> returns the updated record.
\<close>

theorem updateAutomationAfterRun_aggregates:
  assumes "getAutomation workspaceRoot automationId fs = Some a"
  shows "\<exists>index a'.
      a' = a\<lparr>a_lastRunAt := Some (case r_completedAt run of Some c \<Rightarrow> c | None \<Rightarrow> r_startedAt run),
             a_lastStatus := (case r_status run of
                                Success \<Rightarrow> Some LastSuccess
                              | Failure \<Rightarrow> Some LastFailure
                              | Running \<Rightarrow> Some LastRunning
                              | Cancelled \<Rightarrow> a_lastStatus a
                              | Pending \<Rightarrow> a_lastStatus a),
             a_runCount := a_runCount a + 1,
             a_updatedAt := now\<rparr> \<and>
      findIndex (\<lambda>x. a_id x = automationId) (loadAutomations workspaceRoot fs) = Some index \<and>
      loadAutomations workspaceRoot fs ! index = a \<and>
      updateAutomationAfterRun workspaceRoot automationId run now fs =
        fs\<lparr>configs := (configs fs)(workspaceRoot := (loadAutomations workspaceRoot fs)[index := a'])\<rparr> \<and>
      getAutomation workspaceRoot automationId
          (updateAutomationAfterRun workspaceRoot automationId run now fs) = Some a'"
proof -
  let ?P = "\<lambda>x. a_id x = automationId"
  let ?xs = "loadAutomations workspaceRoot fs"
  let ?a' = "a\<lparr>a_lastRunAt := Some (case r_completedAt run of Some c \<Rightarrow> c | None \<Rightarrow> r_startedAt run),
             a_lastStatus := (case r_status run of
                                Success \<Rightarrow> Some LastSuccess
                              | Failure \<Rightarrow> Some LastFailure
                              | Running \<Rightarrow> Some LastRunning
                              | Cancelled \<Rightarrow> a_lastStatus a
                              | Pending \<Rightarrow> a_lastStatus a),
             a_runCount := a_runCount a + 1,
             a_updatedAt := now\<rparr>"
  from assms obtain i where i: "findIndex ?P ?xs = Some i" "?xs ! i = a"
    by (auto simp: getAutomation_def find_findIndex split: option.splits)
  from findIndex_Some[OF i(1)] i(2) have ida: "a_id ?a' = automationId"
    by auto
  have upd: "updateAutomationAfterRun workspaceRoot automationId run now fs =
        fs\<lparr>configs := (configs fs)(workspaceRoot := ?xs[i := ?a'])\<rparr>"
    using i
    by (cases "r_status run")
       (simp_all add: updateAutomationAfterRun_def saveAutomations_def Let_def)
  have get: "getAutomation workspaceRoot automationId
          (updateAutomationAfterRun workspaceRoot automationId run now fs) = Some ?a'"
    unfolding upd getAutomation_def
    using find_update_first[OF i(1), of ?a'] ida
    by (simp add: loadAutomations_def)
  from i upd get show ?thesis by blast
qed

theorem updateAutomationAfterRun_aggregates_witness:
  "getAutomation ''/ws'' ''auto1'' example_store = Some example_automation \<and>
   getAutomation ''/ws'' ''auto1''
       (updateAutomationAfterRun ''/ws'' ''auto1''
          (example_run\<lparr>r_status := Cancelled, r_completedAt := Some ''T5''\<rparr>) ''T6'' example_store) =
     Some (example_automation\<lparr>a_lastRunAt := Some ''T5'', a_lastStatus := None,
                              a_runCount := 1, a_updatedAt := ''T6''\<rparr>)"
proof -
  have h: "getAutomation ''/ws'' ''auto1'' example_store = Some example_automation"
    by (simp add: getAutomation_def loadAutomations_def example_store_def example_automation_def)
  from updateAutomationAfterRun_aggregates[OF h,
      where run = "example_run\<lparr>r_status := Cancelled, r_completedAt := Some ''T5''\<rparr>"
        and now = "''T6''"]
  show ?thesis using h
    by (auto simp: example_run_def example_automation_def)
qed

text \<open>
  Claim C10. When no run file with the given id exists, \<open>updateRun\<close> returns null and
  the store is the one it was given. When the file holds \<open>run\<close>, \<open>updateRun\<close> returns
  a run and writes that same run to the file named after the run's id, in one write,
  leaving every other file alone; in the returned run \<open>id\<close>, \<open>automationId\<close>,
  \<open>startedAt\<close>, \<open>triggeredBy\<close> and \<open>triggerContext\<close> are those of \<open>run\<close>, and each of
  \<open>status\<close>, \<open>completedAt\<close>, \<open>sessionId\<close>, \<open>summary\<close> and \<open>error\<close> is the value
  given in \<open>updates\<close> when the key is present there and that of \<open>run\<close> when it is not.
\<close>

theorem updateRun_frame:
  "(getRun workspaceRoot runId fs = None \<longrightarrow>
      updateRun workspaceRoot runId updates fs = (None, fs)) \<and>
   (\<forall>run. getRun workspaceRoot runId fs = Some run \<longrightarrow>
      (\<exists>updated fs'.
         updateRun workspaceRoot runId updates fs = (Some updated, fs') \<and>
         run_files fs' = (run_files fs)((workspaceRoot, r_id run) \<mapsto> updated) \<and>
         run_writes fs' = run_writes fs @ [((workspaceRoot, r_id run), updated)] \<and>
         configs fs' = configs fs \<and>
         r_id updated = r_id run \<and>
         r_automationId updated = r_automationId run \<and>
         r_startedAt updated = r_startedAt run \<and>
         r_triggeredBy updated = r_triggeredBy run \<and>
         r_triggerContext updated = r_triggerContext run \<and>
         r_status updated = (case u_status updates of None \<Rightarrow> r_status run | Some v \<Rightarrow> v) \<and>
         r_completedAt updated =
           (case u_completedAt updates of None \<Rightarrow> r_completedAt run | Some v \<Rightarrow> v) \<and>
         r_sessionId updated =
           (case u_sessionId updates of None \<Rightarrow> r_sessionId run | Some v \<Rightarrow> v) \<and>
         r_summary updated = (case u_summary updates of None \<Rightarrow> r_summary run | Some v \<Rightarrow> v) \<and>
         r_error updated = (case u_error updates of None \<Rightarrow> r_error run | Some v \<Rightarrow> v)))"
  by (simp add: updateRun_def saveRun_def spread_def Let_def)

theorem updateRun_frame_witness:
  "getRun ''/ws'' ''run2'' (saveRun ''/ws'' example_run example_store) = None \<and>
   updateRun ''/ws'' ''run2'' (no_updates\<lparr>u_status := Some Success\<rparr>)
       (saveRun ''/ws'' example_run example_store) =
     (None, saveRun ''/ws'' example_run example_store) \<and>
   getRun ''/ws'' ''run1'' (saveRun ''/ws'' example_run example_store) = Some example_run \<and>
   fst (updateRun ''/ws'' ''run1'' (no_updates\<lparr>u_status := Some Success\<rparr>)
       (saveRun ''/ws'' example_run example_store)) =
     Some (example_run\<lparr>r_status := Success\<rparr>)"
proof -
  let ?fs = "saveRun ''/ws'' example_run example_store"
  let ?u = "no_updates\<lparr>u_status := Some Success\<rparr>"
  have h1: "getRun ''/ws'' ''run2'' ?fs = None"
    by (simp add: getRun_def saveRun_def example_run_def example_store_def)
  have h2: "getRun ''/ws'' ''run1'' ?fs = Some example_run"
    by (simp add: getRun_def saveRun_def example_run_def example_store_def)
  from updateRun_frame[of "''/ws''" "''run2''" ?fs ?u] h1
  have c1: "updateRun ''/ws'' ''run2'' ?u ?fs = (None, ?fs)"
    by blast
  from updateRun_frame[of "''/ws''" "''run1''" ?fs ?u] h2
  obtain updated fs' where u: "updateRun ''/ws'' ''run1'' ?u ?fs = (Some updated, fs')"
    and f: "r_id updated = r_id example_run" "r_automationId updated = r_automationId example_run"
      "r_startedAt updated = r_startedAt example_run" "r_triggeredBy updated = r_triggeredBy example_run"
      "r_triggerContext updated = r_triggerContext example_run"
      "r_status updated = (case u_status ?u of None \<Rightarrow> r_status example_run | Some v \<Rightarrow> v)"
      "r_completedAt updated = (case u_completedAt ?u of None \<Rightarrow> r_completedAt example_run | Some v \<Rightarrow> v)"
      "r_sessionId updated = (case u_sessionId ?u of None \<Rightarrow> r_sessionId example_run | Some v \<Rightarrow> v)"
      "r_summary updated = (case u_summary ?u of None \<Rightarrow> r_summary example_run | Some v \<Rightarrow> v)"
      "r_error updated = (case u_error ?u of None \<Rightarrow> r_error example_run | Some v \<Rightarrow> v)"
    by blast
  from f have "updated = example_run\<lparr>r_status := Success\<rparr>"
    by (simp add: no_updates_def)
  with u h1 h2 c1 show ?thesis by simp
qed

section \<open>Properties of the manager\<close>

subsection \<open>Auxiliary facts\<close>

lemma updateAutomationAfterRun_runs [simp]:
  "run_files (updateAutomationAfterRun root aid r now fs) = run_files fs"
  "run_writes (updateAutomationAfterRun root aid r now fs) = run_writes fs"
  by (simp_all add: updateAutomationAfterRun_def saveAutomations_def Let_def split: option.splits)

lemma getRun_updateAutomationAfterRun [simp]:
  "getRun root' rid (updateAutomationAfterRun root aid r now fs) = getRun root' rid fs"
  by (simp add: getRun_def)

lemma emit_simps [simp]:
  "disk (emit e s) = disk s" "activeRuns (emit e s) = activeRuns s"
  "sessionToRun (emit e s) = sessionToRun s" "timers (emit e s) = timers s"
  "ticks (emit e s) = ticks s" "clock (emit e s) = clock s"
  "effects (emit e s) = effects s @ [e]" "listening (emit e s) = listening s"
  "triggerRegistry (emit e s) = triggerRegistry s" "next_timer (emit e s) = next_timer s"
  by (simp_all add: emit_def)

lemma map_of_delete_same [simp]: "map_of (AList.delete k al) k = None"
  by (simp add: AList.delete_conv')

lemma completeRun_absent:
  "map_of (activeRuns s) runId = None \<Longrightarrow> completeRun runId status error s = s"
  by (simp add: completeRun_def)

lemma completeRun_tables:
  assumes "map_of (activeRuns s) runId = Some active"
  shows "activeRuns (completeRun runId status error s) = AList.delete runId (activeRuns s)"
    and "sessionToRun (completeRun runId status error s) =
           AList.delete (ar_sessionId active) (sessionToRun s)"
    and "timers (completeRun runId status error s) =
           (case ar_timeoutTimer active of None \<Rightarrow> timers s | Some t \<Rightarrow> AList.delete t (timers s))"
  using assms
  by (simp_all add: completeRun_def Let_def tick_def clearTimeout_def emit_def
      broadcastAutomationEvent_def broadcastAutomationsChanged_def
      split: option.splits prod.splits)

lemma completeRun_record:
  assumes "map_of (activeRuns s) runId = Some active"
      and "getRun (ar_workspaceRoot active) runId (disk s) = Some run"
      and "r_id run = runId"
  shows "getRun (ar_workspaceRoot active) runId (disk (completeRun runId status error s)) =
           Some (run\<lparr>r_status := run_status status, r_completedAt := Some (toISOString s),
                     r_error := or_null error\<rparr>)"
  using assms
  by (simp add: completeRun_def Let_def tick_def clearTimeout_def emit_def
      broadcastAutomationEvent_def broadcastAutomationsChanged_def updateRun_def getRun_def
      saveRun_def spread_def no_updates_def split: option.splits)

lemma completeRun_effects_prefix:
  "\<exists>es. effects (completeRun runId status error s) = effects s @ es"
  by (simp add: completeRun_def Let_def tick_def clearTimeout_def emit_def
      broadcastAutomationEvent_def broadcastAutomationsChanged_def
      split: option.splits prod.splits)

lemma exec_begin_admitted:
  assumes "exec_begin workspaceId automationId triggeredBy triggerContext s = (AwaitCreateSession l, s1)"
  shows "run_writes (disk s1) =
           run_writes (disk s) @ [((ws_rootPath (xl_workspace l), r_id (xl_run l)), xl_run l)]"
    and "r_status (xl_run l) = Pending"
    and "getRun (ws_rootPath (xl_workspace l)) (r_id (xl_run l)) (disk s1) = Some (xl_run l)"
    and "activeRuns s1 = activeRuns s"
    and "sessionToRun s1 = sessionToRun s"
    and "timers s1 = timers s"
    and "length (activeRuns s) < maxConcurrentRuns"
  using assms
  by (auto simp: exec_begin_def createRun_def saveRun_def getRun_def Let_def tick_def emit_def
      broadcastAutomationEvent_def split: option.splits if_splits)

lemma exec_catch_point [simp]: "fst (exec_catch l msg s) = Thrown (SetupError msg)"
  by (simp add: exec_catch_def Let_def split: prod.splits)

lemma exec_catch_tables [simp]:
  "activeRuns (snd (exec_catch l msg s)) = activeRuns s"
  "sessionToRun (snd (exec_catch l msg s)) = sessionToRun s"
  "timers (snd (exec_catch l msg s)) = timers s"
  by (simp_all add: exec_catch_def Let_def tick_def emit_def broadcastAutomationEvent_def
      broadcastAutomationsChanged_def split: prod.splits option.splits)

lemma exec_catch_writes:
  assumes "getRun (ws_rootPath (xl_workspace l)) (r_id (xl_run l)) (disk s) = Some run"
      and "r_id run = r_id (xl_run l)"
  shows "run_writes (disk (snd (exec_catch l msg s))) =
           run_writes (disk s) @
             [((ws_rootPath (xl_workspace l), r_id (xl_run l)),
               run\<lparr>r_status := Failure, r_completedAt := Some (toISOString s), r_error := Some msg\<rparr>)]"
    and "getRun (ws_rootPath (xl_workspace l)) (r_id (xl_run l)) (disk (snd (exec_catch l msg s))) =
           Some (run\<lparr>r_status := Failure, r_completedAt := Some (toISOString s), r_error := Some msg\<rparr>)"
  using assms
  by (simp_all add: exec_catch_def Let_def tick_def emit_def broadcastAutomationEvent_def
      broadcastAutomationsChanged_def updateRun_def saveRun_def getRun_def spread_def no_updates_def
      toISOString_def)

lemma exec_send_simps [simp]:
  "fst (exec_send l sid ur s) = AwaitSendMessage l sid ur"
  "disk (snd (exec_send l sid ur s)) = disk s"
  "activeRuns (snd (exec_send l sid ur s)) = activeRuns s"
  "sessionToRun (snd (exec_send l sid ur s)) = sessionToRun s"
  "timers (snd (exec_send l sid ur s)) = timers s"
  by (simp_all add: exec_send_def emit_def)

lemma exec_after_createSession_resolved:
  assumes "getRun (ws_rootPath (xl_workspace l)) (r_id (xl_run l)) (disk s) = Some run"
      and "r_id run = r_id (xl_run l)"
  shows "fst (exec_after_createSession l (Inr sessionId) s) =
           (case ac_sourceSlugs (a_actionConfig (xl_automation l)) of
              None \<Rightarrow> AwaitSendMessage l sessionId (run\<lparr>r_status := Running, r_sessionId := Some sessionId\<rparr>)
            | Some slugs \<Rightarrow>
                if length slugs > 0
                then AwaitSetSessionSources l sessionId (run\<lparr>r_status := Running, r_sessionId := Some sessionId\<rparr>)
                else AwaitSendMessage l sessionId (run\<lparr>r_status := Running, r_sessionId := Some sessionId\<rparr>))"
    and "run_writes (disk (snd (exec_after_createSession l (Inr sessionId) s))) =
           run_writes (disk s) @
             [((ws_rootPath (xl_workspace l), r_id (xl_run l)),
               run\<lparr>r_status := Running, r_sessionId := Some sessionId\<rparr>)]"
    and "getRun (ws_rootPath (xl_workspace l)) (r_id (xl_run l))
            (disk (snd (exec_after_createSession l (Inr sessionId) s))) =
           Some (run\<lparr>r_status := Running, r_sessionId := Some sessionId\<rparr>)"
  using assms
  by (simp_all add: exec_after_createSession_def Let_def tick_def emit_def setTimeout_def
      updateRun_def saveRun_def getRun_def spread_def no_updates_def exec_send_def
      split: option.splits)

lemma store_ok_updateAutomationAfterRun [simp]:
  "store_ok (updateAutomationAfterRun root aid r now fs) = store_ok fs"
  by (simp add: store_ok_def)

lemma getAutomation_saveRun [simp]:
  "getAutomation root aid (saveRun root' r fs) = getAutomation root aid fs"
  by (simp add: getAutomation_def loadAutomations_def saveRun_def)

lemma find_update_irrelevant:
  "\<not> P (xs ! i) \<Longrightarrow> \<not> P y \<Longrightarrow> find P (xs[i := y]) = find P xs"
proof (induction xs arbitrary: i)
  case Nil
  then show ?case by simp
next
  case (Cons x xs)
  then show ?case by (cases i) auto
qed

lemma getAutomation_after_other:
  assumes "(root', aid') \<noteq> (root, aid)"
  shows "getAutomation root aid (updateAutomationAfterRun root' aid' r now fs) =
           getAutomation root aid fs"
proof (cases "findIndex (\<lambda>a. a_id a = aid') (loadAutomations root' fs)")
  case None
  then show ?thesis by (simp add: updateAutomationAfterRun_def)
next
  case (Some i)
  note fi = findIndex_Some[OF Some]
  show ?thesis
  proof (cases "root' = root")
    case False
    then show ?thesis using Some
      by (simp add: updateAutomationAfterRun_def saveAutomations_def getAutomation_def
          loadAutomations_def Let_def)
  next
    case True
    with assms have ne: "aid' \<noteq> aid" by simp
    with fi have n1: "\<not> a_id (loadAutomations root fs ! i) = aid" using True by simp
    show ?thesis using Some True ne n1 fi
      by (simp add: updateAutomationAfterRun_def saveAutomations_def getAutomation_def
          loadAutomations_def Let_def find_update_irrelevant)
  qed
qed

lemma getAutomation_after_cancelled:
  assumes "getAutomation root aid fs = Some a" and "r_status r = Cancelled"
  shows "getAutomation root aid (updateAutomationAfterRun root aid r now fs) =
           Some (a\<lparr>a_lastRunAt := Some (case r_completedAt r of Some c \<Rightarrow> c | None \<Rightarrow> r_startedAt r),
                   a_runCount := a_runCount a + 1, a_updatedAt := now\<rparr>)"
proof -
  let ?P = "\<lambda>x. a_id x = aid"
  let ?xs = "loadAutomations root fs"
  from assms obtain i where i: "findIndex ?P ?xs = Some i" "?xs ! i = a"
    by (auto simp: getAutomation_def find_findIndex split: option.splits)
  from findIndex_Some[OF i(1)] i(2) have ida: "a_id a = aid" by auto
  show ?thesis
    using i assms(2) ida find_update_first[OF i(1), of "a\<lparr>a_lastRunAt := Some (case r_completedAt r of Some c \<Rightarrow> c | None \<Rightarrow> r_startedAt r),
                   a_runCount := a_runCount a + 1, a_updatedAt := now\<rparr>"]
    by (simp add: updateAutomationAfterRun_def saveAutomations_def Let_def getAutomation_def loadAutomations_def)
qed

lemma cleanup_run_frame [simp]:
  "activeRuns (cleanup_run e s) = activeRuns s"
  "sessionToRun (cleanup_run e s) = sessionToRun s"
  "listening (cleanup_run e s) = listening s"
  "triggerRegistry (cleanup_run e s) = triggerRegistry s"
  "effects (cleanup_run e s) = effects s"
  "clock (cleanup_run e s) = clock s"
  by (simp_all add: cleanup_run_def Let_def tick_def clearTimeout_def
      split: prod.splits option.splits)

lemma fold_cleanup_run_frame [simp]:
  "activeRuns (fold cleanup_run xs s) = activeRuns s"
  "sessionToRun (fold cleanup_run xs s) = sessionToRun s"
  "listening (fold cleanup_run xs s) = listening s"
  "triggerRegistry (fold cleanup_run xs s) = triggerRegistry s"
  "effects (fold cleanup_run xs s) = effects s"
  by (induction xs arbitrary: s) simp_all

lemma cleanup_run_disk:
  "disk (cleanup_run (runId, active) s) =
     (case getRun (ar_workspaceRoot active) runId (disk s) of
        None \<Rightarrow> disk s
      | Some run \<Rightarrow>
          updateAutomationAfterRun (ar_workspaceRoot active) (ar_automationId active)
            (shutdown_run run (toISOString s)) (snd (clock s (Suc (ticks s))))
            (saveRun (ar_workspaceRoot active) (shutdown_run run (toISOString s)) (disk s)))"
  by (simp add: cleanup_run_def Let_def tick_def clearTimeout_def updateRun_def spread_def
      no_updates_def shutdown_run_def toISOString_def split: option.splits)

lemma store_ok_saveRun: "store_ok fs \<Longrightarrow> store_ok (saveRun root r fs)"
  by (simp add: store_ok_def saveRun_def)

lemma store_ok_cleanup_run: "store_ok (disk s) \<Longrightarrow> store_ok (disk (cleanup_run e s))"
  by (cases e) (simp add: cleanup_run_disk store_ok_saveRun shutdown_run_def split: option.splits)

lemma getRun_cleanup_run:
  assumes "store_ok (disk s)"
  shows "getRun root rid (disk (cleanup_run (runId, active) s)) =
           (if root = ar_workspaceRoot active \<and> rid = runId
            then map_option (\<lambda>run. shutdown_run run (toISOString s)) (getRun root rid (disk s))
            else getRun root rid (disk s))"
proof (cases "getRun (ar_workspaceRoot active) runId (disk s)")
  case None
  then show ?thesis by (auto simp add: cleanup_run_disk)
next
  case (Some run)
  with assms have "r_id run = runId" by (simp add: store_ok_def getRun_def)
  then show ?thesis using Some
    by (auto simp add: cleanup_run_disk getRun_def saveRun_def shutdown_run_def)
qed

lemma shutdown_run_twice [simp]: "shutdown_run (shutdown_run run c) c' = shutdown_run run c'"
  by (simp add: shutdown_run_def)

lemma fold_cleanup_run_keeps_cancelled:
  assumes "store_ok (disk s)" and "getRun root rid (disk s) = Some (shutdown_run run c)"
  shows "\<exists>c'. getRun root rid (disk (fold cleanup_run xs s)) = Some (shutdown_run run c')"
  using assms
proof (induction xs arbitrary: s c)
  case Nil
  then show ?case by auto
next
  case (Cons e xs)
  obtain runId active where e: "e = (runId, active)" by (cases e)
  from Cons.prems have "\<exists>c'. getRun root rid (disk (cleanup_run e s)) = Some (shutdown_run run c')"
    unfolding e by (auto simp: getRun_cleanup_run)
  then obtain c' where "getRun root rid (disk (cleanup_run e s)) = Some (shutdown_run run c')" ..
  from Cons.IH[OF store_ok_cleanup_run[OF Cons.prems(1)] this] show ?case by simp
qed

lemma fold_cleanup_run_cancels:
  assumes "store_ok (disk s)" and "(runId, active) \<in> set xs"
      and "getRun (ar_workspaceRoot active) runId (disk s) = Some run"
  shows "\<exists>c. getRun (ar_workspaceRoot active) runId (disk (fold cleanup_run xs s)) =
               Some (shutdown_run run c)"
  using assms
proof (induction xs arbitrary: s)
  case Nil
  then show ?case by simp
next
  case (Cons e xs)
  obtain runId' active' where e: "e = (runId', active')" by (cases e)
  note ok' = store_ok_cleanup_run[OF Cons.prems(1), of e]
  show ?case
  proof (cases "ar_workspaceRoot active' = ar_workspaceRoot active \<and> runId' = runId")
    case True
    with Cons.prems have "getRun (ar_workspaceRoot active) runId (disk (cleanup_run e s)) =
          Some (shutdown_run run (toISOString s))"
      unfolding e by (simp add: getRun_cleanup_run)
    from fold_cleanup_run_keeps_cancelled[OF ok' this] show ?thesis by simp
  next
    case False
    with Cons.prems e have mem: "(runId, active) \<in> set xs" by auto
    from False Cons.prems have "getRun (ar_workspaceRoot active) runId (disk (cleanup_run e s)) = Some run"
      unfolding e by (auto simp add: getRun_cleanup_run)
    from Cons.IH[OF ok' mem this] show ?thesis by simp
  qed
qed


lemma fold_cleanup_run_store_ok:
  "store_ok (disk s) \<Longrightarrow> store_ok (disk (fold cleanup_run xs s))"
  by (induction xs arbitrary: s) (simp_all add: store_ok_cleanup_run)

lemma getAutomation_cleanup_run:
  assumes "getAutomation root aid (disk s) = Some a"
  shows "\<exists>a'. getAutomation root aid (disk (cleanup_run (runId, active) s)) = Some a' \<and>
           a_runCount a' = a_runCount a +
             (if ar_workspaceRoot active = root \<and> ar_automationId active = aid \<and>
                 getRun root runId (disk s) \<noteq> None then 1 else 0) \<and>
           a_lastStatus a' = a_lastStatus a \<and>
           a'\<lparr>a_lastRunAt := None, a_runCount := 0, a_updatedAt := []\<rparr> =
             a\<lparr>a_lastRunAt := None, a_runCount := 0, a_updatedAt := []\<rparr>"
proof (cases "getRun (ar_workspaceRoot active) runId (disk s)")
  case None
  then show ?thesis using assms by (auto simp: cleanup_run_disk)
next
  case (Some run)
  show ?thesis
  proof (cases "ar_workspaceRoot active = root \<and> ar_automationId active = aid")
    case True
    have c: "r_status (shutdown_run run (toISOString s)) = Cancelled"
      by (simp add: shutdown_run_def)
    from assms have "getAutomation root aid
        (saveRun root (shutdown_run run (toISOString s)) (disk s)) = Some a" by simp
    from getAutomation_after_cancelled[OF this c] Some True show ?thesis
      by (simp add: cleanup_run_disk)
  next
    case False
    then have "(ar_workspaceRoot active, ar_automationId active) \<noteq> (root, aid)" by auto
    from getAutomation_after_other[OF this] assms Some False show ?thesis
      by (auto simp add: cleanup_run_disk)
  qed
qed

lemma fold_cleanup_run_aggregates:
  assumes "store_ok (disk s)" and "getAutomation root aid (disk s) = Some a"
  shows "\<exists>a'. getAutomation root aid (disk (fold cleanup_run xs s)) = Some a' \<and>
           a_runCount a' = a_runCount a +
             int (length (filter (\<lambda>e. ar_workspaceRoot (snd e) = root \<and>
                                      ar_automationId (snd e) = aid \<and>
                                      getRun root (fst e) (disk s) \<noteq> None) xs)) \<and>
           a_lastStatus a' = a_lastStatus a \<and>
           a'\<lparr>a_lastRunAt := None, a_runCount := 0, a_updatedAt := []\<rparr> =
             a\<lparr>a_lastRunAt := None, a_runCount := 0, a_updatedAt := []\<rparr>"
  using assms
proof (induction xs arbitrary: s a)
  case Nil
  then show ?case by simp
next
  case (Cons e xs)
  obtain runId active where e: "e = (runId, active)" by (cases e)
  let ?s1 = "cleanup_run e s"
  from getAutomation_cleanup_run[OF Cons.prems(2), of runId active]
  obtain a1 where a1: "getAutomation root aid (disk ?s1) = Some a1"
    and c1: "a_runCount a1 = a_runCount a +
             (if ar_workspaceRoot active = root \<and> ar_automationId active = aid \<and>
                 getRun root runId (disk s) \<noteq> None then 1 else 0)"
    and l1: "a_lastStatus a1 = a_lastStatus a"
    and f1: "a1\<lparr>a_lastRunAt := None, a_runCount := 0, a_updatedAt := []\<rparr> =
             a\<lparr>a_lastRunAt := None, a_runCount := 0, a_updatedAt := []\<rparr>"
    unfolding e by blast
  have same: "\<And>rid. (getRun root rid (disk ?s1) \<noteq> None) = (getRun root rid (disk s) \<noteq> None)"
    unfolding e using Cons.prems(1) by (simp add: getRun_cleanup_run)
  have filt: "filter (\<lambda>e. ar_workspaceRoot (snd e) = root \<and> ar_automationId (snd e) = aid \<and>
                         getRun root (fst e) (disk ?s1) \<noteq> None) xs =
              filter (\<lambda>e. ar_workspaceRoot (snd e) = root \<and> ar_automationId (snd e) = aid \<and>
                         getRun root (fst e) (disk s) \<noteq> None) xs"
    by (rule filter_cong[OF refl]) (simp only: same)
  from Cons.IH[OF store_ok_cleanup_run[OF Cons.prems(1)] a1]
  obtain a' where a': "getAutomation root aid (disk (fold cleanup_run xs ?s1)) = Some a'"
    and c': "a_runCount a' = a_runCount a1 +
             int (length (filter (\<lambda>e. ar_workspaceRoot (snd e) = root \<and>
                                      ar_automationId (snd e) = aid \<and>
                                      getRun root (fst e) (disk ?s1) \<noteq> None) xs))"
    and l': "a_lastStatus a' = a_lastStatus a1"
    and f': "a'\<lparr>a_lastRunAt := None, a_runCount := 0, a_updatedAt := []\<rparr> =
             a1\<lparr>a_lastRunAt := None, a_runCount := 0, a_updatedAt := []\<rparr>"
    by blast
  have cnt: "a_runCount a' = a_runCount a +
             int (length (filter (\<lambda>e. ar_workspaceRoot (snd e) = root \<and>
                                      ar_automationId (snd e) = aid \<and>
                                      getRun root (fst e) (disk s) \<noteq> None) (e # xs)))"
    using c'[unfolded filt] c1 unfolding e by simp
  have g: "getAutomation root aid (disk (fold cleanup_run (e # xs) s)) = Some a'"
    using a' by simp
  from g cnt l' l1 f' f1 show ?case by auto
qed

lemma handlers_fold_stop:
  "handlers (fold (\<lambda>(id, trigger). stop_trigger trigger) ts reg) =
     filter (\<lambda>h. \<forall>entry \<in> set ts. h_resource h \<notin> set (rt_stop (snd entry))) (handlers reg)"
proof (induction ts arbitrary: reg)
  case Nil
  then show ?case by simp
next
  case (Cons e ts)
  obtain id t where e: "e = (id, t)" by (cases e)
  show ?case unfolding e
    by (simp add: Cons.IH) (simp add: stop_trigger_def conj_commute)
qed

lemma handleSessionEvent_no_sessions:
  "sessionToRun s = [] \<Longrightarrow> handleSessionEvent event s = s"
  by (simp add: handleSessionEvent_def split: option.splits)

lemma cleanup_general:
  assumes "active_recorded s"
  shows "triggers (triggerRegistry (cleanup s)) = []"
    and "\<forall>entry \<in> set (triggers (triggerRegistry s)).
           \<forall>h \<in> set (handlers (triggerRegistry (cleanup s))). h_resource h \<notin> set (rt_stop (snd entry))"
    and "\<forall>entry \<in> set (activeRuns s).
           \<exists>run c. getRun (ar_workspaceRoot (snd entry)) (fst entry) (disk s) = Some run \<and>
                   getRun (ar_workspaceRoot (snd entry)) (fst entry) (disk (cleanup s)) =
                     Some (run\<lparr>r_status := Cancelled, r_completedAt := Some c,
                               r_error := Some ''App shutting down''\<rparr>)"
    and "\<forall>a. getAutomation root aid (disk s) = Some a \<longrightarrow>
           (\<exists>a'. getAutomation root aid (disk (cleanup s)) = Some a' \<and>
                 a_runCount a' = a_runCount a +
                   int (length (filter (\<lambda>entry. ar_workspaceRoot (snd entry) = root \<and>
                                            ar_automationId (snd entry) = aid) (activeRuns s))) \<and>
                 a_lastStatus a' = a_lastStatus a \<and>
                 a' = a\<lparr>a_lastRunAt := a_lastRunAt a', a_runCount := a_runCount a',
                        a_updatedAt := a_updatedAt a'\<rparr>)"
    and "activeRuns (cleanup s) = []"
    and "sessionToRun (cleanup s) = []"
    and "\<not> listening (cleanup s)"
    and "handleSessionEvent event (cleanup s) = cleanup s"
    and "session_manager_emits event (cleanup s) = cleanup s"
proof -
  let ?s1 = "s\<lparr>triggerRegistry := unregisterAll (triggerRegistry s)\<rparr>"
  let ?s2 = "fold cleanup_run (activeRuns s) ?s1"
  have cl: "cleanup s = ?s2\<lparr>activeRuns := [], sessionToRun := [], listening := False\<rparr>"
    by (simp add: cleanup_def Let_def)
  from assms have ok: "store_ok (disk ?s1)" by (simp add: active_recorded_def)
  show "triggers (triggerRegistry (cleanup s)) = []"
    by (simp add: cl unregisterAll_def)
  show "\<forall>entry \<in> set (triggers (triggerRegistry s)).
           \<forall>h \<in> set (handlers (triggerRegistry (cleanup s))). h_resource h \<notin> set (rt_stop (snd entry))"
    by (simp add: cl unregisterAll_def handlers_fold_stop)
  show "\<forall>entry \<in> set (activeRuns s).
           \<exists>run c. getRun (ar_workspaceRoot (snd entry)) (fst entry) (disk s) = Some run \<and>
                   getRun (ar_workspaceRoot (snd entry)) (fst entry) (disk (cleanup s)) =
                     Some (run\<lparr>r_status := Cancelled, r_completedAt := Some c,
                               r_error := Some ''App shutting down''\<rparr>)"
  proof
    fix entry assume mem: "entry \<in> set (activeRuns s)"
    obtain runId active where e: "entry = (runId, active)" by (cases entry)
    from assms mem e obtain run where run: "getRun (ar_workspaceRoot active) runId (disk s) = Some run"
      by (auto simp: active_recorded_def)
    then have run1: "getRun (ar_workspaceRoot active) runId (disk ?s1) = Some run" by simp
    from mem e have mem1: "(runId, active) \<in> set (activeRuns s)" by simp
    from fold_cleanup_run_cancels[OF ok mem1 run1]
    obtain c where "getRun (ar_workspaceRoot active) runId (disk ?s2) = Some (shutdown_run run c)"
      by blast
    with run show "\<exists>run c. getRun (ar_workspaceRoot (snd entry)) (fst entry) (disk s) = Some run \<and>
                   getRun (ar_workspaceRoot (snd entry)) (fst entry) (disk (cleanup s)) =
                     Some (run\<lparr>r_status := Cancelled, r_completedAt := Some c,
                               r_error := Some ''App shutting down''\<rparr>)"
      unfolding e cl by (auto simp: shutdown_run_def)
  qed
  show "\<forall>a. getAutomation root aid (disk s) = Some a \<longrightarrow>
           (\<exists>a'. getAutomation root aid (disk (cleanup s)) = Some a' \<and>
                 a_runCount a' = a_runCount a +
                   int (length (filter (\<lambda>entry. ar_workspaceRoot (snd entry) = root \<and>
                                            ar_automationId (snd entry) = aid) (activeRuns s))) \<and>
                 a_lastStatus a' = a_lastStatus a \<and>
                 a' = a\<lparr>a_lastRunAt := a_lastRunAt a', a_runCount := a_runCount a',
                        a_updatedAt := a_updatedAt a'\<rparr>)"
  proof (intro allI impI)
    fix a assume a: "getAutomation root aid (disk s) = Some a"
    then have a1: "getAutomation root aid (disk ?s1) = Some a" by simp
    have filt: "filter (\<lambda>e. ar_workspaceRoot (snd e) = root \<and> ar_automationId (snd e) = aid \<and>
                         getRun root (fst e) (disk ?s1) \<noteq> None) (activeRuns s) =
                filter (\<lambda>entry. ar_workspaceRoot (snd entry) = root \<and>
                                  ar_automationId (snd entry) = aid) (activeRuns s)"
      using assms by (intro filter_cong refl) (auto simp: active_recorded_def)
    from fold_cleanup_run_aggregates[OF ok a1, of "activeRuns s"]
    obtain a' where g: "getAutomation root aid (disk ?s2) = Some a'"
      and c: "a_runCount a' = a_runCount a +
             int (length (filter (\<lambda>entry. ar_workspaceRoot (snd entry) = root \<and>
                                  ar_automationId (snd entry) = aid) (activeRuns s)))"
      and l: "a_lastStatus a' = a_lastStatus a"
      and f: "a'\<lparr>a_lastRunAt := None, a_runCount := 0, a_updatedAt := []\<rparr> =
             a\<lparr>a_lastRunAt := None, a_runCount := 0, a_updatedAt := []\<rparr>"
      unfolding filt by blast
    from f have "a' = a\<lparr>a_lastRunAt := a_lastRunAt a', a_runCount := a_runCount a',
                        a_updatedAt := a_updatedAt a'\<rparr>"
      by (cases a, cases a') simp
    with g c l show "\<exists>a'. getAutomation root aid (disk (cleanup s)) = Some a' \<and>
                 a_runCount a' = a_runCount a +
                   int (length (filter (\<lambda>entry. ar_workspaceRoot (snd entry) = root \<and>
                                            ar_automationId (snd entry) = aid) (activeRuns s))) \<and>
                 a_lastStatus a' = a_lastStatus a \<and>
                 a' = a\<lparr>a_lastRunAt := a_lastRunAt a', a_runCount := a_runCount a',
                        a_updatedAt := a_updatedAt a'\<rparr>"
      unfolding cl by auto
  qed
  show "activeRuns (cleanup s) = []" "sessionToRun (cleanup s) = []" "\<not> listening (cleanup s)"
    by (simp_all add: cl)
  then show "handleSessionEvent event (cleanup s) = cleanup s"
    "session_manager_emits event (cleanup s) = cleanup s"
    by (simp_all add: handleSessionEvent_no_sessions session_manager_emits_def)
qed

lemma keeps_records_refl [simp]: "keeps_records fs fs"
  by (simp add: keeps_records_def)

lemma keeps_records_trans:
  "keeps_records fs fs' \<Longrightarrow> keeps_records fs' fs'' \<Longrightarrow> keeps_records fs fs''"
  by (simp add: keeps_records_def)

lemma keeps_records_saveRun: "keeps_records fs (saveRun root r fs)"
  by (simp add: keeps_records_def store_ok_saveRun) (simp add: saveRun_def)

lemma keeps_records_updateRun: "keeps_records fs (snd (updateRun root rid u fs))"
  by (simp add: updateRun_def keeps_records_saveRun Let_def split: option.splits)

lemma keeps_records_updateAutomationAfterRun:
  "keeps_records fs (updateAutomationAfterRun root aid r now fs)"
  by (simp add: keeps_records_def)

lemma updateRun_Some_recorded:
  assumes "store_ok fs" and "updateRun root rid u fs = (Some r, fs')"
  shows "getRun root rid fs' \<noteq> None"
proof -
  from assms(2) obtain run where run: "getRun root rid fs = Some run"
    and fs': "fs' = saveRun root (spread run u) fs"
    by (auto simp: updateRun_def Let_def split: option.splits)
  from assms(1) run have "r_id run = rid" by (simp add: store_ok_def getRun_def)
  then show ?thesis unfolding fs' by (simp add: getRun_def saveRun_def spread_def)
qed

lemma completeRun_disk_keeps: "keeps_records (disk s) (disk (completeRun runId status error s))"
proof (cases "map_of (activeRuns s) runId")
  case None
  then show ?thesis by (simp add: completeRun_absent)
next
  case (Some active)
  obtain ur fs1 where u: "updateRun (ar_workspaceRoot active) runId
                    (no_updates\<lparr>u_status := Some (run_status status),
                                u_completedAt := Some (Some (toISOString s)),
                                u_error := Some (or_null error)\<rparr>) (disk s) = (ur, fs1)"
    by (cases "updateRun (ar_workspaceRoot active) runId
                    (no_updates\<lparr>u_status := Some (run_status status),
                                u_completedAt := Some (Some (toISOString s)),
                                u_error := Some (or_null error)\<rparr>) (disk s)")
  from keeps_records_updateRun[of "disk s" "ar_workspaceRoot active" runId] u
  have k1: "keeps_records (disk s) fs1" by (metis snd_conv)
  have "disk (completeRun runId status error s) =
          (case ur of None \<Rightarrow> fs1
           | Some updated \<Rightarrow> updateAutomationAfterRun (ar_workspaceRoot active)
                 (ar_automationId active) updated (snd (clock s (Suc (ticks s)))) fs1)"
    using Some u
    by (simp add: completeRun_def Let_def tick_def clearTimeout_def toISOString_def
        broadcastAutomationEvent_def broadcastAutomationsChanged_def split: option.splits)
  then show ?thesis using k1
    by (auto split: option.splits
        intro: keeps_records_trans[OF k1 keeps_records_updateAutomationAfterRun])
qed

lemma set_delete_subset: "set (AList.delete k al) \<subseteq> set al"
  by (auto simp: AList.delete_eq)

lemma set_update_subset: "set (AList.update k v al) \<subseteq> insert (k, v) (set al)"
  by (induction al) auto

lemma completeRun_active_subset:
  "set (activeRuns (completeRun runId status error s)) \<subseteq> set (activeRuns s)"
  by (cases "map_of (activeRuns s) runId")
     (simp_all add: completeRun_absent completeRun_tables set_delete_subset)

lemma active_recorded_step:
  assumes "active_recorded s" and "keeps_records (disk s) (disk s')"
      and "set (activeRuns s') \<subseteq> set (activeRuns s)"
  shows "active_recorded s'"
  using assms unfolding active_recorded_def keeps_records_def getRun_def by blast

lemma active_recorded_completeRun:
  "active_recorded s \<Longrightarrow> active_recorded (completeRun runId status error s)"
  by (rule active_recorded_step[OF _ completeRun_disk_keeps completeRun_active_subset])

lemma active_recorded_emit [simp]: "active_recorded (emit e s) = active_recorded s"
  by (simp add: active_recorded_def)

lemma active_recorded_timers [simp]:
  "active_recorded (s\<lparr>timers := ts\<rparr>) = active_recorded s"
  by (simp add: active_recorded_def)

lemma active_recorded_handleTimeout:
  "active_recorded s \<Longrightarrow> active_recorded (handleTimeout runId c s)"
  by (simp add: handleTimeout_def Let_def active_recorded_completeRun split: option.splits)

lemma active_recorded_timer_fires:
  "active_recorded s \<Longrightarrow> active_recorded (timer_fires t c s)"
  by (simp add: timer_fires_def active_recorded_handleTimeout split: option.splits prod.splits)

lemma active_recorded_handleSessionEvent:
  "active_recorded s \<Longrightarrow> active_recorded (handleSessionEvent event s)"
  by (simp add: handleSessionEvent_def active_recorded_completeRun split: option.splits)

lemma active_recorded_session_manager_emits:
  "active_recorded s \<Longrightarrow> active_recorded (session_manager_emits event s)"
  by (simp add: session_manager_emits_def active_recorded_handleSessionEvent)

lemma active_recorded_cancelRun_begin:
  "active_recorded s \<Longrightarrow> active_recorded (snd (cancelRun_begin runId s))"
  by (simp add: cancelRun_begin_def split: option.splits)

lemma active_recorded_cancelRun_resume:
  "active_recorded s \<Longrightarrow> active_recorded (snd (cancelRun_resume runId c s))"
  by (simp add: cancelRun_resume_def active_recorded_completeRun split: option.splits)

lemma active_recorded_cleanup: "active_recorded s \<Longrightarrow> active_recorded (cleanup s)"
  by (simp add: active_recorded_def cleanup_def Let_def fold_cleanup_run_store_ok)

lemma exec_begin_disk_keeps:
  "keeps_records (disk s) (disk (snd (exec_begin w a tb ctx s)))"
  by (auto simp add: exec_begin_def Let_def createRun_def tick_def broadcastAutomationEvent_def
      keeps_records_saveRun split: option.splits)

lemma exec_begin_active [simp]: "activeRuns (snd (exec_begin w a tb ctx s)) = activeRuns s"
  by (auto simp add: exec_begin_def Let_def createRun_def tick_def broadcastAutomationEvent_def
      split: option.splits)

lemma active_recorded_exec_begin:
  "active_recorded s \<Longrightarrow> active_recorded (snd (exec_begin w a tb ctx s))"
  by (rule active_recorded_step[OF _ exec_begin_disk_keeps]) simp_all

lemma exec_catch_disk_keeps: "keeps_records (disk s) (disk (snd (exec_catch l msg s)))"
proof -
  let ?u = "no_updates\<lparr>u_status := Some Failure,
                           u_completedAt := Some (Some (toISOString s)),
                           u_error := Some (Some msg)\<rparr>"
  obtain ur fs1 where u: "updateRun (ws_rootPath (xl_workspace l)) (r_id (xl_run l)) ?u (disk s) = (ur, fs1)"
    by (cases "updateRun (ws_rootPath (xl_workspace l)) (r_id (xl_run l)) ?u (disk s)")
  from keeps_records_updateRun[of "disk s" "ws_rootPath (xl_workspace l)" "r_id (xl_run l)" ?u] u
  have k1: "keeps_records (disk s) fs1" by simp
  have "disk (snd (exec_catch l msg s)) =
          (case ur of None \<Rightarrow> fs1
           | Some failed \<Rightarrow> updateAutomationAfterRun (ws_rootPath (xl_workspace l))
                 (xl_automationId l) failed (snd (clock s (Suc (ticks s)))) fs1)"
    using u
    by (simp add: exec_catch_def Let_def tick_def toISOString_def
        broadcastAutomationEvent_def broadcastAutomationsChanged_def split: option.splits)
  then show ?thesis using k1
    by (auto split: option.splits
        intro: keeps_records_trans[OF k1 keeps_records_updateAutomationAfterRun])
qed

lemma active_recorded_exec_catch:
  "active_recorded s \<Longrightarrow> active_recorded (snd (exec_catch l msg s))"
  by (rule active_recorded_step[OF _ exec_catch_disk_keeps]) simp_all

lemma active_recorded_exec_send:
  "active_recorded s \<Longrightarrow> active_recorded (snd (exec_send l sid ur s))"
  by (simp add: active_recorded_def)

lemma active_recorded_exec_after_createSession:
  assumes "active_recorded s"
  shows "active_recorded (snd (exec_after_createSession l answer s))"
proof (cases answer)
  case (Inl err)
  then show ?thesis using assms
    by (simp add: exec_after_createSession_def active_recorded_exec_catch)
next
  case (Inr sessionId)
  let ?root = "ws_rootPath (xl_workspace l)"
  let ?rid = "r_id (xl_run l)"
  let ?u = "no_updates\<lparr>u_status := Some Running, u_sessionId := Some (Some sessionId)\<rparr>"
  obtain ur fs1 where u: "updateRun ?root ?rid ?u (disk s) = (ur, fs1)"
    by (cases "updateRun ?root ?rid ?u (disk s)")
  from keeps_records_updateRun[of "disk s" ?root ?rid ?u] u
  have k1: "keeps_records (disk s) fs1" by simp
  have ar1: "active_recorded (s\<lparr>disk := fs1\<rparr>)"
    by (rule active_recorded_step[OF assms]) (simp_all add: k1)
  show ?thesis
  proof (cases ur)
    case None
    then show ?thesis using Inr u active_recorded_exec_catch[OF ar1]
      by (simp add: exec_after_createSession_def)
  next
    case (Some updated)
    from assms have "store_ok (disk s)" by (simp add: active_recorded_def)
    from updateRun_Some_recorded[OF this u[unfolded Some]]
    have rec: "getRun ?root ?rid fs1 \<noteq> None" .
    let ?active = "\<lparr>ar_runId = ?rid, ar_automationId = xl_automationId l,
                     ar_workspaceId = xl_workspaceId l, ar_workspaceRoot = ?root,
                     ar_sessionId = sessionId, ar_startTime = Date_now (s\<lparr>disk := fs1\<rparr>),
                     ar_timeoutTimer = Some (next_timer s)\<rparr>"
    have "\<exists>es. disk (snd (exec_after_createSession l answer s)) = fs1 \<and>
          activeRuns (snd (exec_after_createSession l answer s)) =
            AList.update ?rid ?active (activeRuns s)"
      using Inr u Some
      by (simp add: exec_after_createSession_def Let_def tick_def setTimeout_def exec_send_def
          split: option.splits)
    then have d: "disk (snd (exec_after_createSession l answer s)) = fs1"
      and a: "activeRuns (snd (exec_after_createSession l answer s)) =
            AList.update ?rid ?active (activeRuns s)" by auto
    show ?thesis
      unfolding active_recorded_def d a
    proof (intro conjI ballI)
      show "store_ok fs1" using ar1 by (simp add: active_recorded_def)
      fix entry assume "entry \<in> set (AList.update ?rid ?active (activeRuns s))"
      with set_update_subset have "entry = (?rid, ?active) \<or> entry \<in> set (activeRuns s)"
        by fastforce
      then show "getRun (ar_workspaceRoot (snd entry)) (fst entry) fs1 \<noteq> None"
        using rec ar1 by (auto simp: active_recorded_def)
    qed
  qed
qed

lemma active_recorded_exec_resume:
  "active_recorded s \<Longrightarrow> active_recorded (snd (exec_resume p answer s))"
  by (cases p)
     (simp_all add: active_recorded_exec_after_createSession exec_after_setSessionSources_def
        exec_after_sendMessage_def active_recorded_exec_catch active_recorded_exec_send
        split: option.splits)

theorem reachable_active_recorded: "reachable s \<Longrightarrow> active_recorded s"
proof (induction rule: reachable.induct)
  case (initial s)
  then show ?case by (simp add: active_recorded_def)
qed (simp_all add: active_recorded_exec_begin active_recorded_exec_resume
      active_recorded_cancelRun_begin active_recorded_cancelRun_resume
      active_recorded_session_manager_emits active_recorded_timer_fires active_recorded_cleanup)

subsection \<open>Evaluation of the examples\<close>

lemmas eval_defs = executeAutomation_def exec_continue_def exec_begin_def
  exec_after_createSession_def exec_after_sendMessage_def
  exec_after_setSessionSources_def exec_send_def exec_catch_def rejection_def
  example_manager_def example_store_def example_automation_def getAutomation_def loadAutomations_def
  maxConcurrentRuns_def createRun_def saveRun_def updateRun_def getRun_def spread_def no_updates_def
  generateId_def toISOString_def Date_now_def tick_def emit_def broadcastAutomationEvent_def
  broadcastAutomationsChanged_def setTimeout_def clearTimeout_def timeoutMs_def session_options_def
  build_prompt_def updateAutomationAfterRun_def saveAutomations_def Let_def
  cancelRun_def cancelRun_begin_def cancelRun_resume_def completeRun_def or_null_def
  timer_fires_def handleTimeout_def AList.delete_eq


subsection \<open>Admission\<close>

text \<open>
  Claim C1. When the workspace and the automation resolve and the active-run table holds
  \<open>maxConcurrentRuns\<close> entries or more at the admission check, the call throws the
  concurrency error and the manager's whole state is the state it was called in: no run
  file is written, no table is touched, nothing is broadcast and no session is requested.
  The first stretch of the call already ends there, so the same holds of the call as a
  whole, whatever the session manager would have answered.
\<close>

theorem admission_rejected_leaves_no_trace:
  assumes "workspaces s workspaceId = Some workspace"
      and "getAutomation (ws_rootPath workspace) automationId (disk s) = Some automation"
      and "length (activeRuns s) \<ge> maxConcurrentRuns"
  shows "exec_begin workspaceId automationId triggeredBy triggerContext s =
           (Thrown (ConcurrencyLimitReached maxConcurrentRuns), s) \<and>
         executeAutomation workspaceId automationId triggeredBy triggerContext answers s =
           (Thrown (ConcurrencyLimitReached maxConcurrentRuns), s)"
  using assms by (simp add: executeAutomation_def exec_continue_def exec_begin_def)

theorem admission_rejected_leaves_no_trace_witness:
  "workspaces busy_manager ''w1'' = Some \<lparr>ws_rootPath = ''/ws'', ws_name = ''Work''\<rparr> \<and>
   getAutomation ''/ws'' ''auto1'' (disk busy_manager) = Some example_automation \<and>
   length (activeRuns busy_manager) \<ge> maxConcurrentRuns \<and>
   executeAutomation ''w1'' ''auto1'' Manual None all_resolve busy_manager =
     (Thrown (ConcurrencyLimitReached 2), busy_manager)"
proof -
  have h1: "workspaces busy_manager ''w1'' = Some \<lparr>ws_rootPath = ''/ws'', ws_name = ''Work''\<rparr>"
    by (simp add: busy_manager_def example_manager_def)
  have h2: "getAutomation (ws_rootPath \<lparr>ws_rootPath = ''/ws'', ws_name = ''Work''\<rparr>) ''auto1''
              (disk busy_manager) = Some example_automation"
    by (simp add: busy_manager_def example_manager_def getAutomation_def loadAutomations_def
        example_store_def example_automation_def)
  have h3: "length (activeRuns busy_manager) \<ge> maxConcurrentRuns"
    by (simp add: busy_manager_def maxConcurrentRuns_def)
  from admission_rejected_leaves_no_trace[OF h1 h2 h3, of Manual None all_resolve] h1 h2 h3
  show ?thesis by (simp add: maxConcurrentRuns_def)
qed

subsection \<open>The statuses a call writes\<close>

text \<open>The writes of an admitted call that runs to its end, by the rejection that ends it.\<close>

lemma run_writes_of_call:
  assumes "exec_begin workspaceId automationId triggeredBy triggerContext s = (AwaitCreateSession l, s1)"
  shows "\<exists>ws. run_writes (disk (snd (executeAutomation workspaceId automationId triggeredBy
                     triggerContext answers s))) = run_writes (disk s) @ ws \<and>
          map fst ws = replicate (length ws) (ws_rootPath (xl_workspace l), r_id (xl_run l)) \<and>
          map (r_status \<circ> snd) ws =
            (case createSession_answer answers of
               Inl err \<Rightarrow> [Pending, Failure]
             | Inr sessionId \<Rightarrow>
                 if (case ac_sourceSlugs (a_actionConfig (xl_automation l)) of
                       None \<Rightarrow> rejection (sendMessage_answer answers)
                     | Some slugs \<Rightarrow>
                         if length slugs > 0 \<and> rejection (setSessionSources_answer answers) \<noteq> None
                         then rejection (setSessionSources_answer answers)
                         else rejection (sendMessage_answer answers)) \<noteq> None
                 then [Pending, Running, Failure]
                 else [Pending, Running])"
proof -
  let ?root = "ws_rootPath (xl_workspace l)"
  let ?rid = "r_id (xl_run l)"
  let ?key = "(?root, ?rid)"
  note b = exec_begin_admitted[OF assms]
  have catch: "\<And>err (s' :: manager). exec_catch l err s' = (Thrown (SetupError err), snd (exec_catch l err s'))"
    by (simp add: prod_eq_iff)
  show ?thesis
  proof (cases "createSession_answer answers")
    case (Inl err)
    have "executeAutomation workspaceId automationId triggeredBy triggerContext answers s =
            (Thrown (SetupError err), snd (exec_catch l err s1))"
      using assms Inl catch[of err s1]
      by (simp add: executeAutomation_def exec_continue_def exec_after_createSession_def)
    then have "run_writes (disk (snd (executeAutomation workspaceId automationId triggeredBy
                     triggerContext answers s))) =
          run_writes (disk s) @ [(?key, xl_run l),
             (?key, (xl_run l)\<lparr>r_status := Failure, r_completedAt := Some (toISOString s1), r_error := Some err\<rparr>)]"
      using exec_catch_writes(1)[OF b(3) refl, of err] b(1)
      by simp
    then show ?thesis using Inl b(2) by simp
  next
    case (Inr sessionId)
    let ?running = "(xl_run l)\<lparr>r_status := Running, r_sessionId := Some sessionId\<rparr>"
    obtain p2 s2 where r2: "exec_after_createSession l (Inr sessionId) s1 = (p2, s2)"
      by (cases "exec_after_createSession l (Inr sessionId) s1")
    from exec_after_createSession_resolved[OF b(3) refl, of sessionId] r2
    have p2: "p2 = (case ac_sourceSlugs (a_actionConfig (xl_automation l)) of
              None \<Rightarrow> AwaitSendMessage l sessionId ?running
            | Some slugs \<Rightarrow>
                if length slugs > 0
                then AwaitSetSessionSources l sessionId ?running
                else AwaitSendMessage l sessionId ?running)"
      and w2: "run_writes (disk s2) = run_writes (disk s) @ [(?key, xl_run l), (?key, ?running)]"
      and g2: "getRun ?root ?rid (disk s2) = Some ?running"
      using b(1) by simp_all
    have idr: "r_id ?running = ?rid" by simp
    have fail: "\<And>err (s' :: manager). disk s' = disk s2 \<Longrightarrow>
        run_writes (disk (snd (exec_catch l err s'))) = run_writes (disk s) @
           [(?key, xl_run l), (?key, ?running),
            (?key, ?running\<lparr>r_status := Failure, r_completedAt := Some (toISOString s'), r_error := Some err\<rparr>)]"
      using exec_catch_writes(1)[OF _ idr] g2 w2 by simp
    have e1: "executeAutomation workspaceId automationId triggeredBy triggerContext answers s =
            exec_continue answers (exec_continue answers (p2, s2))"
      using assms Inr r2 by (simp add: executeAutomation_def exec_continue_def)
    have send: "\<And>s' :: manager. disk s' = disk s2 \<Longrightarrow>
       \<exists>ws. run_writes (disk (snd (exec_continue answers (AwaitSendMessage l sessionId ?running, s')))) =
               run_writes (disk s) @ ws \<and>
            map fst ws = replicate (length ws) ?key \<and>
            map (r_status \<circ> snd) ws =
              (if rejection (sendMessage_answer answers) \<noteq> None then [Pending, Running, Failure]
               else [Pending, Running])"
    proof -
      fix s' :: manager assume d: "disk s' = disk s2"
      show "\<exists>ws. run_writes (disk (snd (exec_continue answers (AwaitSendMessage l sessionId ?running, s')))) =
               run_writes (disk s) @ ws \<and>
            map fst ws = replicate (length ws) ?key \<and>
            map (r_status \<circ> snd) ws =
              (if rejection (sendMessage_answer answers) \<noteq> None then [Pending, Running, Failure]
               else [Pending, Running])"
      proof (cases "rejection (sendMessage_answer answers)")
        case None
        then show ?thesis using w2 d b(2)
          by (simp add: exec_continue_def exec_after_sendMessage_def)
      next
        case (Some err)
        then show ?thesis using fail[OF d, of err] b(2)
          by (simp add: exec_continue_def exec_after_sendMessage_def)
      qed
    qed
    have done_send: "\<And>s' :: manager. exec_continue answers (exec_continue answers (AwaitSendMessage l sessionId ?running, s')) =
        exec_continue answers (AwaitSendMessage l sessionId ?running, s')"
      using catch
      by (auto simp add: exec_continue_def exec_after_sendMessage_def split: option.splits)
    show ?thesis
    proof (cases "ac_sourceSlugs (a_actionConfig (xl_automation l))")
      case None
      then show ?thesis using send[of s2] e1 p2 Inr done_send by simp
    next
      case (Some slugs)
      show ?thesis
      proof (cases "length slugs > 0")
        case False
        then show ?thesis using send[of s2] e1 p2 Inr Some done_send by simp
      next
        case True
        show ?thesis
        proof (cases "rejection (setSessionSources_answer answers)")
          case S3: (Some err)
          have "executeAutomation workspaceId automationId triggeredBy triggerContext answers s =
                  (Thrown (SetupError err), snd (exec_catch l err s2))"
            using e1 p2 Some True S3 catch[of err s2]
            by (simp add: exec_continue_def exec_after_setSessionSources_def)
          then show ?thesis using Inr Some True S3 fail[of s2 err] b(2) by simp
        next
          case None
          have "executeAutomation workspaceId automationId triggeredBy triggerContext answers s =
                  exec_continue answers (AwaitSendMessage l sessionId ?running, snd (exec_send l sessionId ?running s2))"
            using e1 p2 Some True None
            by (simp add: exec_continue_def exec_after_setSessionSources_def prod_eq_iff)
          then show ?thesis using Inr Some True None send[of "snd (exec_send l sessionId ?running s2)"] by simp
        qed
      qed
    qed
  qed
qed

text \<open>
  An admitted call that nothing interleaves with writes the run file two or three times,
  always the file of the run it created: first with status pending; then, if
  \<open>createSession\<close> is rejected, with status failure and nothing in between; if
  \<open>createSession\<close> resolves, with status running, before \<open>setSessionSources\<close> or
  \<open>sendMessage\<close> is awaited, and with status failure after that when one of the two is
  rejected.
\<close>

lemma uninterrupted_call_statuses:
  assumes "exec_begin workspaceId automationId triggeredBy triggerContext s = (AwaitCreateSession l, s1)"
  shows "\<exists>ws. run_writes (disk (snd (executeAutomation workspaceId automationId triggeredBy
                     triggerContext answers s))) = run_writes (disk s) @ ws \<and>
          map fst ws = replicate (length ws) (ws_rootPath (xl_workspace l), r_id (xl_run l)) \<and>
          map (r_status \<circ> snd) ws =
            (case createSession_answer answers of
               Inl err \<Rightarrow> [Pending, Failure]
             | Inr sessionId \<Rightarrow>
                 if (case ac_sourceSlugs (a_actionConfig (xl_automation l)) of
                       None \<Rightarrow> False
                     | Some slugs \<Rightarrow> length slugs > 0 \<and> isl (setSessionSources_answer answers)) \<or>
                    isl (sendMessage_answer answers)
                 then [Pending, Running, Failure]
                 else [Pending, Running])"
proof -
  have eq: "(case createSession_answer answers of
               Inl err \<Rightarrow> [Pending, Failure]
             | Inr sessionId \<Rightarrow>
                 if (case ac_sourceSlugs (a_actionConfig (xl_automation l)) of
                       None \<Rightarrow> rejection (sendMessage_answer answers)
                     | Some slugs \<Rightarrow>
                         if length slugs > 0 \<and> rejection (setSessionSources_answer answers) \<noteq> None
                         then rejection (setSessionSources_answer answers)
                         else rejection (sendMessage_answer answers)) \<noteq> None
                 then [Pending, Running, Failure]
                 else [Pending, Running]) =
           (case createSession_answer answers of
               Inl err \<Rightarrow> [Pending, Failure]
             | Inr sessionId \<Rightarrow>
                 if (case ac_sourceSlugs (a_actionConfig (xl_automation l)) of
                       None \<Rightarrow> False
                     | Some slugs \<Rightarrow> length slugs > 0 \<and> isl (setSessionSources_answer answers)) \<or>
                    isl (sendMessage_answer answers)
                 then [Pending, Running, Failure]
                 else [Pending, Running])"
    by (cases "createSession_answer answers"; cases "setSessionSources_answer answers";
        cases "sendMessage_answer answers";
        cases "ac_sourceSlugs (a_actionConfig (xl_automation l))")
       (simp_all add: rejection_def)
  from run_writes_of_call[OF assms, of answers] show ?thesis
    unfolding eq .
qed


subsection \<open>Interleaved calls\<close>

text \<open>
  A call that runs from its first stretch to its end with nothing in between keeps the
  active-run table within \<open>maxConcurrentRuns\<close>: only the stretch after
  \<open>createSession\<close> inserts, one entry, and the call gets there only if the check
  of its first stretch found the table below the limit.
\<close>

lemma length_update_le: "length (AList.update k v al) \<le> Suc (length al)"
  by (induction al) auto

lemma exec_begin_point:
  "(\<exists>e. fst (exec_begin w a tb ctx s) = Thrown e) \<or>
   ((\<exists>l. fst (exec_begin w a tb ctx s) = AwaitCreateSession l) \<and>
    length (activeRuns s) < maxConcurrentRuns)"
  by (simp add: exec_begin_def Let_def split: option.splits prod.splits)

lemma exec_after_createSession_grows:
  "length (activeRuns (snd (exec_after_createSession l answer s))) \<le> Suc (length (activeRuns s))"
  by (auto simp: exec_after_createSession_def Let_def setTimeout_def tick_def emit_def
      length_update_le split: sum.splits prod.splits option.splits)

lemma exec_after_createSession_point:
  "fst (exec_after_createSession l answer s) \<noteq> AwaitCreateSession l'"
  by (auto simp: exec_after_createSession_def Let_def split: sum.splits prod.splits option.splits)

lemma exec_resume_later:
  assumes "\<forall>l. p \<noteq> AwaitCreateSession l"
  shows "activeRuns (snd (exec_resume p answer s)) = activeRuns s"
    and "\<forall>l. fst (exec_resume p answer s) \<noteq> AwaitCreateSession l"
  using assms
  by (cases p; simp add: exec_after_setSessionSources_def exec_after_sendMessage_def
      split: option.splits)+

lemma uninterrupted_call_respects_limit:
  assumes "length (activeRuns s) \<le> maxConcurrentRuns"
  shows "length (activeRuns (snd (executeAutomation w a tb ctx answers s))) \<le> maxConcurrentRuns"
proof -
  obtain p0 s0 where b: "exec_begin w a tb ctx s = (p0, s0)" by (cases "exec_begin w a tb ctx s")
  have a0: "activeRuns s0 = activeRuns s" using exec_begin_active[of w a tb ctx s] b by simp
  obtain p1 s1 where r1: "exec_resume p0 (answer_to p0 answers) s0 = (p1, s1)"
    by (cases "exec_resume p0 (answer_to p0 answers) s0")
  have p1: "\<forall>l. p1 \<noteq> AwaitCreateSession l"
  proof (cases "\<exists>l. p0 = AwaitCreateSession l")
    case True
    then obtain l where "p0 = AwaitCreateSession l" by blast
    with r1 exec_after_createSession_point[of l "answer_to p0 answers" s0] show ?thesis by auto
  next
    case False
    with exec_resume_later(2)[of p0 "answer_to p0 answers" s0] r1 show ?thesis by simp
  qed
  have l1: "length (activeRuns s1) \<le> maxConcurrentRuns"
  proof (cases "\<exists>l. p0 = AwaitCreateSession l")
    case True
    then obtain l where l: "p0 = AwaitCreateSession l" by blast
    from exec_begin_point[of w a tb ctx s] b l have "length (activeRuns s) < maxConcurrentRuns"
      by simp
    moreover from exec_after_createSession_grows[of l "answer_to p0 answers" s0] r1 l a0
    have "length (activeRuns s1) \<le> Suc (length (activeRuns s))" by simp
    ultimately show ?thesis by simp
  next
    case False
    with exec_resume_later(1)[of p0 "answer_to p0 answers" s0] r1 a0 assms show ?thesis by simp
  qed
  obtain p2 s2 where r2: "exec_resume p1 (answer_to p1 answers) s1 = (p2, s2)"
    by (cases "exec_resume p1 (answer_to p1 answers) s1")
  from exec_resume_later[OF p1, of "answer_to p1 answers" s1] r2
  have p2: "\<forall>l. p2 \<noteq> AwaitCreateSession l" and a2: "activeRuns s2 = activeRuns s1" by simp_all
  from exec_resume_later(1)[OF p2, of "answer_to p2 answers" s2]
  have "activeRuns (snd (exec_resume p2 (answer_to p2 answers) s2)) = activeRuns s1"
    using a2 by simp
  then show ?thesis
    using l1 by (simp add: executeAutomation_def exec_continue_def b r1 r2)
qed

text \<open>
  Claim C4. The admission check is in the first stretch of a call and the insertion into the
  active-run table in the second, with the await of \<open>createSession\<close> between them. Three
  calls that each run their first stretch before any of them is resumed all pass the check
  against the empty table; once the three sessions are created the table holds three
  entries, above \<open>maxConcurrentRuns\<close>, and the three runs are stored as running.
\<close>

theorem three_runs_admitted_with_limit_two:
  "(let (p1, s1) = exec_begin ''w1'' ''auto1'' Manual None example_manager;
        (p2, s2) = exec_begin ''w1'' ''auto1'' Manual None s1;
        (p3, s3) = exec_begin ''w1'' ''auto1'' Manual None s2;
        (q1, s4) = exec_resume p1 (Inr ''sess1'') s3;
        (q2, s5) = exec_resume p2 (Inr ''sess2'') s4;
        (q3, s6) = exec_resume p3 (Inr ''sess3'') s5
    in activeRuns s3 = [] \<and>
       map fst (activeRuns s6) = [''run'', ''runx'', ''runxx''] \<and>
       map (\<lambda>runId. map_option r_status (getRun ''/ws'' runId (disk s6)))
           [''run'', ''runx'', ''runxx''] = [Some Running, Some Running, Some Running] \<and>
       maxConcurrentRuns = 2 \<and>
       length (activeRuns s6) = 3)"
  by (simp add: eval_defs)

subsection \<open>Terminal states\<close>

text \<open>
  Once \<open>completeRun\<close> has finalized a run that was active, everything that arrives for
  it later leaves the state alone: a second \<open>completeRun\<close>, the timeout handler, a
  session event for its session, its timer; \<open>cancelRun\<close> returns false and only logs
  a warning.
\<close>

lemma finalized_run_is_inert:
  assumes "map_of (activeRuns s) runId = Some active"
  shows "completeRun runId status' error' (completeRun runId status error s) =
           completeRun runId status error s"
    and "handleTimeout runId c (completeRun runId status error s) = completeRun runId status error s"
    and "cancelRun runId c (completeRun runId status error s) =
           (Inr False, emit (LogWarn (CannotCancelRun runId)) (completeRun runId status error s))"
    and "ev_sessionId event = Some (ar_sessionId active) \<Longrightarrow>
           handleSessionEvent event (completeRun runId status error s) =
             completeRun runId status error s"
    and "ar_timeoutTimer active = Some t \<Longrightarrow>
           timer_fires t c (completeRun runId status error s) = completeRun runId status error s"
proof -
  let ?s' = "completeRun runId status error s"
  note t = completeRun_tables[OF assms, of status error]
  have a: "map_of (activeRuns ?s') runId = None" by (simp add: t(1))
  show "completeRun runId status' error' ?s' = ?s'" by (rule completeRun_absent[OF a])
  show "handleTimeout runId c ?s' = ?s'" by (simp add: handleTimeout_def a)
  show "cancelRun runId c ?s' = (Inr False, emit (LogWarn (CannotCancelRun runId)) ?s')"
    by (simp add: cancelRun_def cancelRun_begin_def a)
  show "handleSessionEvent event ?s' = ?s'" if "ev_sessionId event = Some (ar_sessionId active)"
    using that by (simp add: handleSessionEvent_def t(2))
  show "timer_fires t c ?s' = ?s'" if "ar_timeoutTimer active = Some t"
    using that by (simp add: timer_fires_def t(3))
qed

text \<open>
  Claim C2. The \<open>catch\<close> block of \<open>executeAutomation\<close> writes the terminal status
  failure without going through \<open>completeRun\<close>: when the failure comes after the
  insertion into the tables (a rejected \<open>sendMessage\<close> here), the run stays in the
  active-run table and in the session index and its timer stays pending. A later
  \<open>cancelRun\<close> then takes the stored run from failure to cancelled, and the timer,
  when it fires instead, finalizes the run a second time with another error message; either
  way the automation's \<open>runCount\<close> counts the one run twice.
\<close>

theorem failed_setup_run_is_finalized_again:
  "(let (p, s1) = executeAutomation ''w1'' ''auto1'' Manual None
                    (all_resolve\<lparr>sendMessage_answer := Inl ''boom''\<rparr>) example_manager;
        (r, s2) = cancelRun ''run'' None s1;
        s3 = timer_fires 0 None s1
    in p = Thrown (SetupError ''boom'') \<and>
       map_option r_status (getRun ''/ws'' ''run'' (disk s1)) = Some Failure \<and>
       map fst (activeRuns s1) = [''run''] \<and>
       map fst (sessionToRun s1) = [''sess1''] \<and>
       timers s1 = [(0, ''run'', 1000)] \<and>
       r = Inr True \<and>
       map_option r_status (getRun ''/ws'' ''run'' (disk s2)) = Some Cancelled \<and>
       map (r_status \<circ> snd) (run_writes (disk s2)) = [Pending, Running, Failure, Cancelled] \<and>
       map a_runCount (loadAutomations ''/ws'' (disk s2)) = [2] \<and>
       map (r_status \<circ> snd) (run_writes (disk s3)) = [Pending, Running, Failure, Failure] \<and>
       map (r_error \<circ> snd) (run_writes (disk s3)) =
         [None, None, Some ''boom'', Some ''Automation timed out''] \<and>
       map a_runCount (loadAutomations ''/ws'' (disk s3)) = [2])"
  by (simp add: all_resolve_def eval_defs)

subsection \<open>Reachable states\<close>

lemma reachable_exec_continue:
  "reachable (snd ps) \<Longrightarrow> reachable (snd (exec_continue answers ps))"
  unfolding exec_continue_def by (rule reachable.call_resumes)

lemma reachable_executeAutomation:
  "reachable s \<Longrightarrow> reachable (snd (executeAutomation w a tb ctx answers s))"
  unfolding executeAutomation_def
  by (intro reachable_exec_continue reachable.call_begins)

lemma reachable_example_manager: "reachable example_manager"
  by (rule reachable.initial)
     (simp_all add: example_manager_def example_store_def store_ok_def)

lemma reachable_running_manager: "reachable running_manager"
  unfolding running_manager_def
  by (rule reachable_executeAutomation[OF reachable_example_manager])

lemma running_manager_tables:
  "timers running_manager = [(0, ''run'', 1000)]"
  "map fst (activeRuns running_manager) = [''run'']"
  "map (ar_sessionId \<circ> snd) (activeRuns running_manager) = [''sess1'']"
  "map (ar_workspaceRoot \<circ> snd) (activeRuns running_manager) = [''/ws'']"
  "map (ar_timeoutTimer \<circ> snd) (activeRuns running_manager) = [Some 0]"
  "map_option r_status (getRun ''/ws'' ''run'' (disk running_manager)) = Some Running"
  by (simp_all add: running_manager_def all_resolve_def eval_defs)

lemma reachable_two_running: "reachable two_running"
  unfolding two_running_def
  by (rule reachable_executeAutomation[OF reachable_running_manager])

lemma two_running_tables:
  "map fst (activeRuns two_running) = [''run'', ''runx'']"
  "map (ar_workspaceRoot \<circ> snd) (activeRuns two_running) = [''/ws'', ''/ws'']"
  "map (\<lambda>runId. map_option r_status (getRun ''/ws'' runId (disk two_running))) [''run'', ''runx''] =
     [Some Running, Some Running]"
  "map a_runCount (loadAutomations ''/ws'' (disk two_running)) = [0]"
  by (simp_all add: two_running_def running_manager_def all_resolve_def eval_defs)

subsection \<open>Timeout\<close>

lemma timeout_registered:
  assumes "getRun (ws_rootPath (xl_workspace l)) (r_id (xl_run l)) (disk s) = Some run0"
      and "r_id run0 = r_id (xl_run l)"
  shows "\<exists>t active.
         getRun (ws_rootPath (xl_workspace l)) (r_id (xl_run l))
             (disk (snd (exec_after_createSession l (Inr sessionId) s))) =
           Some (run0\<lparr>r_status := Running, r_sessionId := Some sessionId\<rparr>) \<and>
         map_of (activeRuns (snd (exec_after_createSession l (Inr sessionId) s))) (r_id (xl_run l)) =
           Some active \<and>
         ar_sessionId active = sessionId \<and>
         ar_timeoutTimer active = Some t \<and>
         map_of (timers (snd (exec_after_createSession l (Inr sessionId) s))) t =
           Some (r_id (xl_run l),
                 (case ac_timeoutSeconds (a_actionConfig (xl_automation l)) of
                    None \<Rightarrow> 300
                  | Some n \<Rightarrow> if n = 0 then 300 else n) * 1000)"
  using assms
  by (simp add: exec_after_createSession_def Let_def tick_def emit_def setTimeout_def
      updateRun_def saveRun_def getRun_def spread_def no_updates_def exec_send_def timeoutMs_def
      AList.update_conv' split: option.splits)

lemma timeout_enforced:
  assumes "map_of (timers s) t = Some (runId, ms)"
      and "map_of (activeRuns s) runId = Some active"
      and "getRun (ar_workspaceRoot active) runId (disk s) = Some run"
      and "r_id run = runId"
  shows "CancelProcessing (ar_sessionId active) \<in> set (effects (timer_fires t cancel_rejected s)) \<and>
      getRun (ar_workspaceRoot active) runId (disk (timer_fires t cancel_rejected s)) =
        Some (run\<lparr>r_status := Failure, r_completedAt := Some (toISOString s),
                  r_error := Some ''Automation timed out''\<rparr>) \<and>
      map_of (activeRuns (timer_fires t cancel_rejected s)) runId = None \<and>
      map_of (sessionToRun (timer_fires t cancel_rejected s)) (ar_sessionId active) = None \<and>
      map_of (timers (timer_fires t cancel_rejected s)) t = None \<and>
      timer_fires t cancel_rejected s =
        (case cancel_rejected of
           None \<Rightarrow> timer_fires t None s
         | Some err \<Rightarrow> emit (LogError (FailedToCancelTimedOutSession err)) (timer_fires t None s))"
proof -
  let ?s1 = "emit (CancelProcessing (ar_sessionId active))
                (emit (LogWarn (RunTimedOut runId)) (s\<lparr>timers := AList.delete t (timers s)\<rparr>))"
  have a1: "map_of (activeRuns ?s1) runId = Some active" using assms by simp
  have g1: "getRun (ar_workspaceRoot active) runId (disk ?s1) = Some run" using assms by simp
  have tf: "timer_fires t None s = completeRun runId failure (Some ''Automation timed out'') ?s1"
    using assms by (simp add: timer_fires_def handleTimeout_def Let_def)
  have tf': "timer_fires t cancel_rejected s =
        (case cancel_rejected of
           None \<Rightarrow> timer_fires t None s
         | Some err \<Rightarrow> emit (LogError (FailedToCancelTimedOutSession err)) (timer_fires t None s))"
    using assms by (simp add: timer_fires_def handleTimeout_def Let_def split: option.splits)
  have iso: "toISOString ?s1 = toISOString s" by (simp add: toISOString_def)
  note rec = completeRun_record[OF a1 g1 assms(4), of "failure" "Some ''Automation timed out''"]
  note tabs = completeRun_tables[OF a1, of "failure" "Some ''Automation timed out''"]
  from completeRun_effects_prefix[of runId failure "Some ''Automation timed out''" ?s1]
  obtain es where es: "effects (timer_fires t None s) = effects ?s1 @ es"
    unfolding tf by blast
  have 1: "CancelProcessing (ar_sessionId active) \<in> set (effects (timer_fires t cancel_rejected s))"
    unfolding tf' using es by (cases cancel_rejected) simp_all
  have 2: "getRun (ar_workspaceRoot active) runId (disk (timer_fires t cancel_rejected s)) =
        Some (run\<lparr>r_status := Failure, r_completedAt := Some (toISOString s),
                  r_error := Some ''Automation timed out''\<rparr>)"
    unfolding tf' using rec iso by (cases cancel_rejected) (simp_all add: tf or_null_def)
  have 3: "map_of (activeRuns (timer_fires t cancel_rejected s)) runId = None"
    unfolding tf' using tabs(1) by (cases cancel_rejected) (simp_all add: tf)
  have 4: "map_of (sessionToRun (timer_fires t cancel_rejected s)) (ar_sessionId active) = None"
    unfolding tf' using tabs(2) by (cases cancel_rejected) (simp_all add: tf)
  have 5: "map_of (timers (timer_fires t cancel_rejected s)) t = None"
    unfolding tf' using tabs(3)
    by (cases cancel_rejected; cases "ar_timeoutTimer active")
       (simp_all add: tf AList.delete_conv')
  from 1 2 3 4 5 tf' show ?thesis by blast
qed

lemma active_recorded_run:
  assumes "active_recorded s" and "map_of (activeRuns s) runId = Some active"
  shows "\<exists>run. getRun (ar_workspaceRoot active) runId (disk s) = Some run \<and> r_id run = runId"
proof -
  from assms(2) have "(runId, active) \<in> set (activeRuns s)" by (rule map_of_SomeD)
  with assms(1) obtain run where run: "getRun (ar_workspaceRoot active) runId (disk s) = Some run"
    unfolding active_recorded_def by fastforce
  with assms(1) have "r_id run = runId"
    unfolding active_recorded_def store_ok_def getRun_def by blast
  with run show ?thesis by blast
qed

text \<open>
  Claim C5. In every state the manager reaches: (1) when session creation resolves and the
  run's file is there, the stretch that stores the run as running also puts it into the
  active-run table with a timer handle, and the host's timer table holds under that handle
  the run's id and the delay \<open>(timeoutSeconds || 300) * 1000\<close>, where an absent or zero
  \<open>timeoutSeconds\<close> gives 300; (2) when a pending timer fires for a run that is in the
  active-run table, the run's file exists, cancellation of its session is requested, the
  file is rewritten with status failure, the completion time and the error
  \<open>Automation timed out\<close>, every other field as it was, and the run is no longer in the
  active-run table nor its session in the session index nor the timer pending; a rejected
  cancellation changes nothing but adds one line to the log.
\<close>

theorem timeout_registered_and_enforced:
  assumes "reachable s"
  shows "(\<forall>run0. getRun (ws_rootPath (xl_workspace l)) (r_id (xl_run l)) (disk s) = Some run0 \<longrightarrow>
      (\<exists>t active.
         getRun (ws_rootPath (xl_workspace l)) (r_id (xl_run l))
             (disk (snd (exec_after_createSession l (Inr sessionId) s))) =
           Some (run0\<lparr>r_status := Running, r_sessionId := Some sessionId\<rparr>) \<and>
         map_of (activeRuns (snd (exec_after_createSession l (Inr sessionId) s))) (r_id (xl_run l)) =
           Some active \<and>
         ar_sessionId active = sessionId \<and>
         ar_timeoutTimer active = Some t \<and>
         map_of (timers (snd (exec_after_createSession l (Inr sessionId) s))) t =
           Some (r_id (xl_run l),
                 (case ac_timeoutSeconds (a_actionConfig (xl_automation l)) of
                    None \<Rightarrow> 300
                  | Some n \<Rightarrow> if n = 0 then 300 else n) * 1000))) \<and>
   (\<forall>runId ms active.
      map_of (timers s) t = Some (runId, ms) \<and> map_of (activeRuns s) runId = Some active \<longrightarrow>
      (\<exists>run. getRun (ar_workspaceRoot active) runId (disk s) = Some run \<and>
         CancelProcessing (ar_sessionId active) \<in> set (effects (timer_fires t cancel_rejected s)) \<and>
         getRun (ar_workspaceRoot active) runId (disk (timer_fires t cancel_rejected s)) =
           Some (run\<lparr>r_status := Failure, r_completedAt := Some (toISOString s),
                     r_error := Some ''Automation timed out''\<rparr>) \<and>
         map_of (activeRuns (timer_fires t cancel_rejected s)) runId = None \<and>
         map_of (sessionToRun (timer_fires t cancel_rejected s)) (ar_sessionId active) = None \<and>
         map_of (timers (timer_fires t cancel_rejected s)) t = None \<and>
         timer_fires t cancel_rejected s =
           (case cancel_rejected of
              None \<Rightarrow> timer_fires t None s
            | Some err \<Rightarrow>
                emit (LogError (FailedToCancelTimedOutSession err)) (timer_fires t None s))))"
proof (intro conjI allI impI)
  note ar = reachable_active_recorded[OF assms]
  fix run0
  assume g: "getRun (ws_rootPath (xl_workspace l)) (r_id (xl_run l)) (disk s) = Some run0"
  with ar have "r_id run0 = r_id (xl_run l)"
    unfolding active_recorded_def store_ok_def getRun_def by blast
  from timeout_registered[OF g this]
  show "\<exists>t active.
         getRun (ws_rootPath (xl_workspace l)) (r_id (xl_run l))
             (disk (snd (exec_after_createSession l (Inr sessionId) s))) =
           Some (run0\<lparr>r_status := Running, r_sessionId := Some sessionId\<rparr>) \<and>
         map_of (activeRuns (snd (exec_after_createSession l (Inr sessionId) s))) (r_id (xl_run l)) =
           Some active \<and>
         ar_sessionId active = sessionId \<and>
         ar_timeoutTimer active = Some t \<and>
         map_of (timers (snd (exec_after_createSession l (Inr sessionId) s))) t =
           Some (r_id (xl_run l),
                 (case ac_timeoutSeconds (a_actionConfig (xl_automation l)) of
                    None \<Rightarrow> 300
                  | Some n \<Rightarrow> if n = 0 then 300 else n) * 1000)" .
next
  note ar = reachable_active_recorded[OF assms]
  fix runId ms active
  assume h: "map_of (timers s) t = Some (runId, ms) \<and> map_of (activeRuns s) runId = Some active"
  from active_recorded_run[OF ar] h obtain run where
    run: "getRun (ar_workspaceRoot active) runId (disk s) = Some run" "r_id run = runId"
    by blast
  from h have h1: "map_of (timers s) t = Some (runId, ms)"
    and h2: "map_of (activeRuns s) runId = Some active" by simp_all
  from timeout_enforced[OF h1 h2 run, of cancel_rejected] run(1)
  show "\<exists>run. getRun (ar_workspaceRoot active) runId (disk s) = Some run \<and>
         CancelProcessing (ar_sessionId active) \<in> set (effects (timer_fires t cancel_rejected s)) \<and>
         getRun (ar_workspaceRoot active) runId (disk (timer_fires t cancel_rejected s)) =
           Some (run\<lparr>r_status := Failure, r_completedAt := Some (toISOString s),
                     r_error := Some ''Automation timed out''\<rparr>) \<and>
         map_of (activeRuns (timer_fires t cancel_rejected s)) runId = None \<and>
         map_of (sessionToRun (timer_fires t cancel_rejected s)) (ar_sessionId active) = None \<and>
         map_of (timers (timer_fires t cancel_rejected s)) t = None \<and>
         timer_fires t cancel_rejected s =
           (case cancel_rejected of
              None \<Rightarrow> timer_fires t None s
            | Some err \<Rightarrow>
                emit (LogError (FailedToCancelTimedOutSession err)) (timer_fires t None s))"
    by blast
qed

theorem timeout_registered_and_enforced_witness:
  "reachable (snd (exec_begin ''w1'' ''auto1'' Manual None example_manager)) \<and>
   getRun ''/ws'' ''run'' (disk (snd (exec_begin ''w1'' ''auto1'' Manual None example_manager))) =
     Some (xl_run example_locals) \<and>
   timers (snd (exec_after_createSession example_locals (Inr ''sess1'')
                  (snd (exec_begin ''w1'' ''auto1'' Manual None example_manager)))) =
     [(0, ''run'', 1000)] \<and>
   reachable running_manager \<and>
   map_of (timers running_manager) 0 = Some (''run'', 1000) \<and>
   map (ar_timeoutTimer \<circ> snd) (activeRuns running_manager) = [Some 0] \<and>
   map_option r_status (getRun ''/ws'' ''run'' (disk running_manager)) = Some Running \<and>
   map_option r_status (getRun ''/ws'' ''run'' (disk (timer_fires 0 (Some ''gone'') running_manager))) =
     Some Failure \<and>
   map_option r_error (getRun ''/ws'' ''run'' (disk (timer_fires 0 (Some ''gone'') running_manager))) =
     Some (Some ''Automation timed out'') \<and>
   map_of (activeRuns (timer_fires 0 (Some ''gone'') running_manager)) ''run'' = None"
proof -
  let ?s0 = "snd (exec_begin ''w1'' ''auto1'' Manual None example_manager)"
  have r0: "reachable ?s0"
    by (rule reachable.call_begins[OF reachable_example_manager])
  have g0: "getRun ''/ws'' ''run'' (disk ?s0) = Some (xl_run example_locals)"
    by (simp add: example_locals_def eval_defs)
  have g0': "getRun (ws_rootPath (xl_workspace example_locals)) (r_id (xl_run example_locals))
               (disk ?s0) = Some (xl_run example_locals)"
    using g0 by (simp add: example_locals_def)
  from timeout_registered_and_enforced[OF r0, where l = example_locals and sessionId = "''sess1''",
      THEN conjunct1, rule_format, OF g0']
  obtain t0 where "map_of (timers (snd (exec_after_createSession example_locals (Inr ''sess1'') ?s0))) t0 =
      Some (r_id (xl_run example_locals),
            (case ac_timeoutSeconds (a_actionConfig (xl_automation example_locals)) of
               None \<Rightarrow> 300
             | Some n \<Rightarrow> if n = 0 then 300 else n) * 1000)"
    by blast
  then have t0: "timers (snd (exec_after_createSession example_locals (Inr ''sess1'') ?s0)) =
      [(0, ''run'', 1000)]"
    by (simp add: example_locals_def eval_defs)
  have r: "reachable running_manager" by (rule reachable_running_manager)
  have t: "map_of (timers running_manager) 0 = Some (''run'', 1000)"
    by (simp add: running_manager_tables)
  obtain active where a: "activeRuns running_manager = [(''run'', active)]"
    and root: "ar_workspaceRoot active = ''/ws''"
    using running_manager_tables(2,4)
    by (cases "activeRuns running_manager") auto
  then have m: "map_of (activeRuns running_manager) ''run'' = Some active" by simp
  from timeout_registered_and_enforced[OF r, of _ _ 0 "Some ''gone''"] t m
  obtain run where run: "getRun (ar_workspaceRoot active) ''run'' (disk running_manager) = Some run"
    and after: "getRun (ar_workspaceRoot active) ''run''
        (disk (timer_fires 0 (Some ''gone'') running_manager)) =
           Some (run\<lparr>r_status := Failure, r_completedAt := Some (toISOString running_manager),
                     r_error := Some ''Automation timed out''\<rparr>)"
    and gone: "map_of (activeRuns (timer_fires 0 (Some ''gone'') running_manager)) ''run'' = None"
    by blast
  from r0 g0 t0 r t run after gone root running_manager_tables(5,6) show ?thesis by simp
qed

subsection \<open>Shutdown\<close>

text \<open>
  Claim C9. From every state the manager reaches, \<open>cleanup\<close> leaves the trigger table
  empty and no callback that a registered trigger's \<open>stop\<close> releases; every run of the
  active-run table has its file, rewritten with status cancelled, a completion time and the
  error \<open>App shutting down\<close>, every other field as it was; every automation has its
  \<open>runCount\<close> raised by the number of its runs that were active, its \<open>lastStatus\<close>
  kept, and nothing changed but \<open>lastRunAt\<close>, \<open>runCount\<close> and \<open>updatedAt\<close>; the
  active-run table and the session index are empty; the listener is detached; and any
  session event, delivered by the session manager or handed to the handler directly, leaves
  the state as it is.
\<close>

theorem cleanup_finalizes_active_runs:
  assumes "reachable s"
  shows "triggers (triggerRegistry (cleanup s)) = [] \<and>
    (\<forall>entry \<in> set (triggers (triggerRegistry s)).
       \<forall>h \<in> set (handlers (triggerRegistry (cleanup s))). h_resource h \<notin> set (rt_stop (snd entry))) \<and>
    (\<forall>entry \<in> set (activeRuns s).
       \<exists>run c. getRun (ar_workspaceRoot (snd entry)) (fst entry) (disk s) = Some run \<and>
               getRun (ar_workspaceRoot (snd entry)) (fst entry) (disk (cleanup s)) =
                 Some (run\<lparr>r_status := Cancelled, r_completedAt := Some c,
                           r_error := Some ''App shutting down''\<rparr>)) \<and>
    (\<forall>root aid a. getAutomation root aid (disk s) = Some a \<longrightarrow>
       (\<exists>a'. getAutomation root aid (disk (cleanup s)) = Some a' \<and>
             a_runCount a' = a_runCount a +
               int (length (filter (\<lambda>entry. ar_workspaceRoot (snd entry) = root \<and>
                                        ar_automationId (snd entry) = aid) (activeRuns s))) \<and>
             a_lastStatus a' = a_lastStatus a \<and>
             a' = a\<lparr>a_lastRunAt := a_lastRunAt a', a_runCount := a_runCount a',
                    a_updatedAt := a_updatedAt a'\<rparr>)) \<and>
    activeRuns (cleanup s) = [] \<and>
    sessionToRun (cleanup s) = [] \<and>
    \<not> listening (cleanup s) \<and>
    (\<forall>event. handleSessionEvent event (cleanup s) = cleanup s \<and>
             session_manager_emits event (cleanup s) = cleanup s)"
proof -
  note ar = reachable_active_recorded[OF assms]
  note g = cleanup_general[OF ar]
  show ?thesis
    apply (intro conjI allI)
            apply (rule g(1))
           apply (rule g(2))
          apply (rule g(3))
         apply (rule g(4)[THEN spec])
        apply (rule g(5))
       apply (rule g(6))
      apply (rule g(7))
     apply (rule g(8))
    apply (rule g(9))
    done
qed

theorem cleanup_finalizes_active_runs_witness:
  "reachable two_running \<and>
   map fst (activeRuns two_running) = [''run'', ''runx''] \<and>
   map (\<lambda>runId. map_option r_status (getRun ''/ws'' runId (disk two_running))) [''run'', ''runx''] =
     [Some Running, Some Running] \<and>
   map (\<lambda>runId. map_option r_status (getRun ''/ws'' runId (disk (cleanup two_running))))
       [''run'', ''runx''] = [Some Cancelled, Some Cancelled] \<and>
   map (\<lambda>runId. map_option r_error (getRun ''/ws'' runId (disk (cleanup two_running))))
       [''run'', ''runx''] = [Some (Some ''App shutting down''), Some (Some ''App shutting down'')] \<and>
   map a_runCount (loadAutomations ''/ws'' (disk (cleanup two_running))) = [2] \<and>
   activeRuns (cleanup two_running) = [] \<and>
   sessionToRun (cleanup two_running) = [] \<and>
   handleSessionEvent \<lparr>ev_type = ''complete'', ev_sessionId = Some ''sess1'', ev_error = None\<rparr>
       (cleanup two_running) = cleanup two_running"
proof -
  have r: "reachable two_running" by (rule reachable_two_running)
  note c = cleanup_finalizes_active_runs[OF r]
  from c have tabs: "activeRuns (cleanup two_running) = []" "sessionToRun (cleanup two_running) = []"
    by blast+
  from c have ev: "handleSessionEvent \<lparr>ev_type = ''complete'', ev_sessionId = Some ''sess1'', ev_error = None\<rparr>
       (cleanup two_running) = cleanup two_running"
    by blast
  have st: "map (\<lambda>runId. map_option r_status (getRun ''/ws'' runId (disk (cleanup two_running))))
       [''run'', ''runx''] = [Some Cancelled, Some Cancelled]"
    "map (\<lambda>runId. map_option r_error (getRun ''/ws'' runId (disk (cleanup two_running))))
       [''run'', ''runx''] = [Some (Some ''App shutting down''), Some (Some ''App shutting down'')]"
    "map a_runCount (loadAutomations ''/ws'' (disk (cleanup two_running))) = [2]"
    by (simp_all add: two_running_def running_manager_def all_resolve_def eval_defs
        cleanup_def cleanup_run_def unregisterAll_def empty_registry_def)
  from r two_running_tables(1,3) st tabs ev show ?thesis by simp
qed

section \<open>Properties of the trigger registry\<close>

lemma handle_below_mono: "handle_below n r \<Longrightarrow> n \<le> m \<Longrightarrow> handle_below m r"
  by (cases r) auto

lemma installs_refl: "installs a ty [] reg reg"
  by (simp add: installs_def)

lemma installs_onTrigger: "installs a ty [] reg (onTrigger a' ty' ctx reg)"
  by (simp add: installs_def onTrigger_def)

lemma callback_simps [simp]:
  "h_resource (callback a ty r) = r" "h_automationId (callback a ty r) = a_id a"
  "h_workspaceId (callback a ty r) = a_workspaceId a" "h_type (callback a ty r) = ty"
  by (simp_all add: callback_def)

lemma installs_trans:
  assumes "installs a ty rs reg reg1" and "installs a ty rs' reg1 reg2"
  shows "installs a ty (rs @ rs') reg reg2"
  using assms unfolding installs_def
  by (auto simp: image_Un image_image intro: handle_below_mono)

lemma all_below_installs: "all_below reg \<Longrightarrow> installs a ty rs reg reg' \<Longrightarrow> all_below reg'"
  unfolding all_below_def installs_def
  by (auto simp: callback_def intro: handle_below_mono)

lemma fresh_handle:
  assumes "all_below reg" and "\<not> handle_below (next_handle reg) r"
  shows "r \<notin> h_resource ` set (handlers reg)"
  using assms unfolding all_below_def by auto

lemma installs_one:
  assumes "all_below reg" and "\<not> handle_below (next_handle reg) r"
      and "handle_below (Suc (next_handle reg)) r"
  shows "installs a ty [r] reg (install r a ty (reg\<lparr>next_handle := Suc (next_handle reg)\<rparr>))"
  using fresh_handle[OF assms(1,2)] assms(3)
  by (simp add: installs_def install_def callback_def)

lemma open_watchers_installs:
  assumes "all_below reg" and "open_watchers env a ps ws reg = (ws', reg')"
  shows "\<exists>new. ws' = ws @ new \<and> installs a FileChange (map FsWatcher new) reg reg'"
  using assms
proof (induction ps arbitrary: ws reg)
  case Nil
  then show ?case by (simp add: installs_refl)
next
  case (Cons p ps)
  show ?case
  proof (cases "existsSync env p \<and> watch_succeeds env p")
    case False
    with Cons.prems have "open_watchers env a ps ws reg = (ws', reg')" by (auto split: if_splits)
    from Cons.IH[OF Cons.prems(1) this] show ?thesis .
  next
    case True
    let ?w = "next_handle reg"
    let ?reg1 = "install (FsWatcher ?w) a FileChange (reg\<lparr>next_handle := Suc ?w\<rparr>)"
    have i1: "installs a FileChange [FsWatcher ?w] reg ?reg1"
      by (rule installs_one[OF Cons.prems(1)]) simp_all
    from True Cons.prems have "open_watchers env a ps (ws @ [?w]) ?reg1 = (ws', reg')"
      by (simp add: Let_def)
    from Cons.IH[OF all_below_installs[OF Cons.prems(1) i1] this]
    obtain new where new: "ws' = (ws @ [?w]) @ new" "installs a FileChange (map FsWatcher new) ?reg1 reg'"
      by blast
    from installs_trans[OF i1 new(2)] new(1) show ?thesis
      by (intro exI[of _ "?w # new"]) simp
  qed
qed

lemma add_power_listeners_installs:
  assumes "all_below reg" and "add_power_listeners a evs ls reg = (ls', reg')"
  shows "\<exists>new. ls' = ls @ new \<and> installs a PowerEvent new reg reg'"
  using assms
proof (induction evs arbitrary: ls reg)
  case Nil
  then show ?case by (simp add: installs_refl)
next
  case (Cons ev evs)
  show ?case
  proof (cases "eventMap ev")
    case None
    with Cons.prems have "add_power_listeners a evs ls reg = (ls', reg')" by simp
    from Cons.IH[OF Cons.prems(1) this] show ?thesis .
  next
    case (Some electronEvent)
    let ?l = "PowerListener electronEvent (next_handle reg)"
    let ?reg1 = "install ?l a PowerEvent (reg\<lparr>next_handle := Suc (next_handle reg)\<rparr>)"
    have i1: "installs a PowerEvent [?l] reg ?reg1"
      by (rule installs_one[OF Cons.prems(1)]) simp_all
    from Some Cons.prems have "add_power_listeners a evs (ls @ [?l]) ?reg1 = (ls', reg')"
      by (simp add: Let_def)
    from Cons.IH[OF all_below_installs[OF Cons.prems(1) i1] this]
    obtain new where new: "ls' = (ls @ [?l]) @ new" "installs a PowerEvent new ?reg1 reg'"
      by blast
    from installs_trans[OF i1 new(2)] new(1) show ?thesis
      by (intro exI[of _ "?l # new"]) simp
  qed
qed

lemma all_below_onTrigger [simp]: "all_below (onTrigger a ty ctx reg) = all_below reg"
  by (simp add: all_below_def onTrigger_def)

lemma add_app_listeners_installs:
  assumes "all_below reg" and "add_app_listeners env a evs ls reg = (ls', reg')"
  shows "\<exists>new. ls' = ls @ new \<and> installs a AppEvent new reg reg'"
  using assms
proof (induction evs arbitrary: ls reg)
  case Nil
  then show ?case by (simp add: installs_refl)
next
  case (Cons ev evs)
  consider (ready) "ev = ''app-ready''"
    | (window) "ev \<noteq> ''app-ready''" "ev = ''window-focus'' \<or> ev = ''window-blur''"
    | (other) "ev \<noteq> ''app-ready''" "ev \<noteq> ''window-focus''" "ev \<noteq> ''window-blur''"
    by blast
  then show ?case
  proof cases
    case ready
    let ?reg1 = "onTrigger a AppEvent [(''event'', JString ev), (''firedAt'', JString (now_iso env))] reg"
    have i1: "installs a AppEvent [] reg ?reg1" by (rule installs_onTrigger)
    from ready Cons.prems have "add_app_listeners env a evs ls ?reg1 = (ls', reg')" by simp
    from Cons.IH[OF _ this] Cons.prems(1)
    obtain new where new: "ls' = ls @ new" "installs a AppEvent new ?reg1 reg'" by auto
    from installs_trans[OF i1 new(2)] new(1) show ?thesis by auto
  next
    case window
    let ?e = "if ev = ''window-focus'' then ''browser-window-focus'' else ''browser-window-blur''"
    let ?l = "AppListener ?e (next_handle reg)"
    let ?reg1 = "install ?l a AppEvent (reg\<lparr>next_handle := Suc (next_handle reg)\<rparr>)"
    have i1: "installs a AppEvent [?l] reg ?reg1"
      by (rule installs_one[OF Cons.prems(1)]) simp_all
    from window Cons.prems have "add_app_listeners env a evs (ls @ [?l]) ?reg1 = (ls', reg')"
      by (simp add: Let_def)
    from Cons.IH[OF all_below_installs[OF Cons.prems(1) i1] this]
    obtain new where new: "ls' = (ls @ [?l]) @ new" "installs a AppEvent new ?reg1 reg'"
      by blast
    from installs_trans[OF i1 new(2)] new(1) show ?thesis
      by (intro exI[of _ "?l # new"]) simp
  next
    case other
    with Cons.prems have "add_app_listeners env a evs ls reg = (ls', reg')" by simp
    from Cons.IH[OF Cons.prems(1) this] show ?thesis .
  qed
qed

lemma subscribes_nothing: "subscribes a ty reg reg"
  unfolding subscribes_def using installs_refl by blast

lemma subscribes_one:
  assumes "all_below reg" and "\<not> handle_below (next_handle reg) r"
      and "handle_below (Suc (next_handle reg)) r"
  shows "subscribes a ty reg
           (triggers_set a ty [r] (install r a ty (reg\<lparr>next_handle := Suc (next_handle reg)\<rparr>)))"
  unfolding subscribes_def using installs_one[OF assms] by blast

lemma subscribes_schedule:
  "all_below reg \<Longrightarrow> subscribes a Schedule reg (registerScheduleTrigger env a c tz reg)"
  unfolding registerScheduleTrigger_def
  by (simp add: Let_def subscribes_nothing subscribes_one split: option.splits)

lemma subscribes_hotkey:
  "all_below reg \<Longrightarrow> subscribes a Hotkey reg (registerHotkeyTrigger env a accel reg)"
  unfolding registerHotkeyTrigger_def
  apply (auto simp: Let_def subscribes_nothing)
  apply (simp add: subscribes_def)
  apply (rule exI[of _ "[GlobalShortcut accel]"])
  apply (rule exI[of _ "install (GlobalShortcut accel) a Hotkey reg"])
  apply (simp add: installs_def install_def callback_def)
  done

lemma subscribes_fileChange:
  assumes "all_below reg"
  shows "subscribes a FileChange reg (registerFileChangeTrigger env a ps reg)"
proof (cases "ps = []")
  case True
  then show ?thesis by (simp add: registerFileChangeTrigger_def subscribes_nothing)
next
  case False
  obtain ws reg1 where r: "open_watchers env a ps [] reg = (ws, reg1)"
    by (cases "open_watchers env a ps [] reg")
  from open_watchers_installs[OF assms r] have i: "installs a FileChange (map FsWatcher ws) reg reg1"
    by simp
  show ?thesis using False r i
    by (auto simp: registerFileChangeTrigger_def subscribes_def)
qed

lemma subscribes_power:
  assumes "all_below reg"
  shows "subscribes a PowerEvent reg (registerPowerEventTrigger a evs reg)"
proof (cases "evs = []")
  case True
  then show ?thesis by (simp add: registerPowerEventTrigger_def subscribes_nothing)
next
  case False
  obtain ls reg1 where r: "add_power_listeners a evs [] reg = (ls, reg1)"
    by (cases "add_power_listeners a evs [] reg")
  from add_power_listeners_installs[OF assms r] have i: "installs a PowerEvent ls reg reg1"
    by simp
  show ?thesis using False r i
    by (auto simp: registerPowerEventTrigger_def subscribes_def)
qed

lemma subscribes_app:
  assumes "all_below reg"
  shows "subscribes a AppEvent reg (registerAppEventTrigger env a evs reg)"
proof (cases "evs = []")
  case True
  then show ?thesis by (simp add: registerAppEventTrigger_def subscribes_nothing)
next
  case False
  obtain ls reg1 where r: "add_app_listeners env a evs [] reg = (ls, reg1)"
    by (cases "add_app_listeners env a evs [] reg")
  from add_app_listeners_installs[OF assms r] have i: "installs a AppEvent ls reg reg1"
    by simp
  show ?thesis using False r i
    by (auto simp: registerAppEventTrigger_def subscribes_def)
qed

lemma subscribes_clipboard:
  assumes "all_below reg"
  shows "subscribes a Clipboard reg (registerClipboardTrigger env a pat reg)"
proof -
  let ?r = "IntervalTimer (next_handle reg)"
  let ?c = "\<lparr>cc_lastContent = clipboard_readText env, cc_regex = clipboard_regex env pat\<rparr>"
  let ?mid = "install ?r a Clipboard
                   (reg\<lparr>next_handle := Suc (next_handle reg),
                        closures := AList.update (next_handle reg) ?c (closures reg)\<rparr>)"
  have nf: "?r \<notin> h_resource ` set (handlers reg)"
    by (rule fresh_handle[OF assms]) simp
  have "installs a Clipboard [?r] reg ?mid"
    using nf by (simp add: installs_def install_def callback_def)
  then show ?thesis
    unfolding subscribes_def registerClipboardTrigger_def Let_def by blast
qed

lemma subscribes_folder:
  "all_below reg \<Longrightarrow> subscribes a FolderAction reg (registerFolderActionTrigger env a folder reg)"
  unfolding registerFolderActionTrigger_def
  by (simp add: Let_def subscribes_nothing subscribes_one)

lemma subscribes_register_config:
  "all_below reg \<Longrightarrow> subscribes a (config_type cfg) reg (register_config env a cfg reg)"
  by (cases cfg)
     (simp_all add: subscribes_schedule subscribes_hotkey subscribes_fileChange subscribes_power
        subscribes_app subscribes_clipboard subscribes_folder subscribes_nothing)


lemma reg_inv_all_below: "reg_inv reg \<Longrightarrow> all_below reg"
  by (simp add: reg_inv_def all_below_def)

lemma unregister_triggers: "triggers (unregister x reg) = AList.delete x (triggers reg)"
proof (cases "map_of (triggers reg) x")
  case None
  then have "x \<notin> fst ` set (triggers reg)" by (simp add: map_of_eq_None_iff)
  then show ?thesis using None by (simp add: unregister_def)
next
  case (Some t)
  then show ?thesis by (simp add: unregister_def Let_def stop_trigger_def)
qed

lemma unregister_handlers:
  "handlers (unregister x reg) =
     (case map_of (triggers reg) x of
        None \<Rightarrow> handlers reg
      | Some t \<Rightarrow> filter (\<lambda>h. h_resource h \<notin> set (rt_stop t)) (handlers reg))"
  by (simp add: unregister_def Let_def stop_trigger_def split: option.splits)

lemma unregister_next_handle [simp]: "next_handle (unregister x reg) = next_handle reg"
  by (simp add: unregister_def Let_def stop_trigger_def split: option.splits)

lemma unregister_absent: "map_of (triggers reg) x = None \<Longrightarrow> unregister x reg = reg"
  by (simp add: unregister_def)

lemma unregister_idem: "unregister x (unregister x reg) = unregister x reg"
  by (rule unregister_absent) (simp add: unregister_triggers)

lemma unregister_removes_owned:
  assumes "reg_inv reg" and "h \<in> set (handlers (unregister x reg))"
  shows "h_automationId h \<noteq> x"
proof
  assume x: "h_automationId h = x"
  from assms(2) have mem: "h \<in> set (handlers reg)"
    by (auto simp: unregister_handlers split: option.splits)
  with assms(1) x obtain t where t: "map_of (triggers reg) x = Some t" "h_resource h \<in> set (rt_stop t)"
    unfolding reg_inv_def by blast
  with assms(2) show False by (simp add: unregister_handlers)
qed

lemma reg_inv_unregister:
  assumes "reg_inv reg"
  shows "reg_inv (unregister x reg)"
proof -
  have sub: "set (handlers (unregister x reg)) \<subseteq> set (handlers reg)"
    by (auto simp: unregister_handlers split: option.splits)
  have d1: "distinct (map fst (triggers (unregister x reg)))"
    using assms by (simp add: unregister_triggers reg_inv_def distinct_delete)
  have d2: "distinct (map h_resource (handlers (unregister x reg)))"
    using assms by (simp add: unregister_handlers reg_inv_def distinct_map_filter split: option.splits)
  have b: "\<forall>h \<in> set (handlers (unregister x reg)). handle_below (next_handle (unregister x reg)) (h_resource h)"
    using assms sub by (auto simp: reg_inv_def)
  have c: "\<forall>h \<in> set (handlers (unregister x reg)).
         \<exists>t. map_of (triggers (unregister x reg)) (h_automationId h) = Some t \<and> h_resource h \<in> set (rt_stop t)"
  proof
    fix h assume h: "h \<in> set (handlers (unregister x reg))"
    from unregister_removes_owned[OF assms h] have ne: "h_automationId h \<noteq> x" .
    from h sub assms obtain t where "map_of (triggers reg) (h_automationId h) = Some t"
      "h_resource h \<in> set (rt_stop t)" unfolding reg_inv_def by blast
    with ne show "\<exists>t. map_of (triggers (unregister x reg)) (h_automationId h) = Some t \<and> h_resource h \<in> set (rt_stop t)"
      by (simp add: unregister_triggers)
  qed
  from d1 d2 b c show ?thesis unfolding reg_inv_def by blast
qed

lemma reg_inv_subscribes:
  assumes inv: "reg_inv reg"
      and none: "\<forall>h \<in> set (handlers reg). h_automationId h \<noteq> a_id a"
      and sub: "subscribes a ty reg reg'"
  shows "reg_inv reg'"
    and "\<forall>h \<in> set (handlers reg'). h_automationId h = a_id a \<longrightarrow>
           h_workspaceId h = a_workspaceId a \<and> h_type h = ty"
proof -
  from sub obtain rs mid where i: "installs a ty rs reg mid"
    and alt: "reg' = triggers_set a ty rs mid \<or>
              (rs = [] \<and> triggers reg' = triggers mid \<and> handlers reg' = handlers mid \<and>
               next_handle reg' = next_handle mid)"
    unfolding subscribes_def by blast
  from i have hm: "handlers mid = handlers reg @ map (callback a ty) rs"
    and drs: "distinct rs"
    and fresh: "\<forall>r \<in> set rs. r \<notin> h_resource ` set (handlers reg)"
    and below: "\<forall>r \<in> set rs. handle_below (next_handle mid) r"
    and mono: "next_handle reg \<le> next_handle mid"
    and tm: "triggers mid = triggers reg"
    unfolding installs_def by auto
  have h': "handlers reg' = handlers reg @ map (callback a ty) rs"
    using alt hm by (auto simp: triggers_set_def)
  have n': "next_handle reg' = next_handle mid"
    using alt by (auto simp: triggers_set_def)
  show "\<forall>h \<in> set (handlers reg'). h_automationId h = a_id a \<longrightarrow>
           h_workspaceId h = a_workspaceId a \<and> h_type h = ty"
    using none unfolding h' by auto
  have d2: "distinct (map h_resource (handlers reg'))"
    using inv drs fresh unfolding h' reg_inv_def
    by (auto simp: distinct_map comp_def inj_on_def image_image)
  have b: "\<forall>h \<in> set (handlers reg'). handle_below (next_handle reg') (h_resource h)"
    using inv below mono unfolding h' n' reg_inv_def
    by (auto intro: handle_below_mono)
  from alt show "reg_inv reg'"
  proof
    assume r: "reg' = triggers_set a ty rs mid"
    then have t': "triggers reg' = AList.update (a_id a)
            \<lparr>rt_automationId = a_id a, rt_type = ty, rt_stop = rs\<rparr> (triggers reg)"
      by (simp add: triggers_set_def tm)
    have d1: "distinct (map fst (triggers reg'))"
      using inv unfolding t' reg_inv_def by (simp add: distinct_update)
    have c: "\<forall>h \<in> set (handlers reg').
         \<exists>t. map_of (triggers reg') (h_automationId h) = Some t \<and> h_resource h \<in> set (rt_stop t)"
      using inv none unfolding h' t' reg_inv_def
      by (auto simp: update_conv')
    from d1 d2 b c show ?thesis unfolding reg_inv_def by blast
  next
    assume r: "rs = [] \<and> triggers reg' = triggers mid \<and> handlers reg' = handlers mid \<and>
               next_handle reg' = next_handle mid"
    then have t': "triggers reg' = triggers reg" and h'': "handlers reg' = handlers reg"
      using tm hm by simp_all
    from inv d2 b show ?thesis unfolding reg_inv_def t' h'' by auto
  qed
qed

lemma reg_inv_register:
  assumes "reg_inv reg"
  shows "reg_inv (register env a reg)"
    and "\<forall>h \<in> set (handlers (register env a reg)). h_automationId h = a_id a \<longrightarrow>
           h_workspaceId h = a_workspaceId a \<and> h_type h = config_type (a_triggerConfig a)"
proof -
  let ?reg0 = "unregister (a_id a) reg"
  have inv0: "reg_inv ?reg0" by (rule reg_inv_unregister[OF assms])
  have none: "\<forall>h \<in> set (handlers ?reg0). h_automationId h \<noteq> a_id a"
    using unregister_removes_owned[OF assms] by blast
  have sub: "subscribes a (config_type (a_triggerConfig a)) ?reg0 (register env a reg)"
    unfolding register_def by (rule subscribes_register_config[OF reg_inv_all_below[OF inv0]])
  from reg_inv_subscribes[OF inv0 none sub]
  show "reg_inv (register env a reg)"
    and "\<forall>h \<in> set (handlers (register env a reg)). h_automationId h = a_id a \<longrightarrow>
           h_workspaceId h = a_workspaceId a \<and> h_type h = config_type (a_triggerConfig a)"
    by blast+
qed

lemma filter_same_key:
  "distinct (map f xs) \<Longrightarrow> x \<in> set xs \<Longrightarrow> filter (\<lambda>y. f y = f x) xs = [x]"
proof (induction xs)
  case Nil
  then show ?case by simp
next
  case (Cons y ys)
  show ?case
  proof (cases "x = y")
    case True
    with Cons.prems have "\<forall>z \<in> set ys. f z \<noteq> f x"
      by (auto simp: image_iff)
    then have "filter (\<lambda>z. f z = f x) ys = []"
      by (simp add: filter_empty_conv)
    with True show ?thesis by simp
  next
    case False
    with Cons.prems have "x \<in> set ys" "f y \<noteq> f x" by auto
    with Cons show ?thesis by simp
  qed
qed

lemma fire_live:
  assumes "reg_inv reg" and "h \<in> set (handlers reg)"
  shows "fired (fire (h_resource h) ctx reg) =
           fired reg @ [\<lparr>tc_workspaceId = h_workspaceId h, tc_automationId = h_automationId h,
                         tc_triggeredBy = h_type h, tc_triggerContext = ctx\<rparr>]"
proof -
  from assms have "filter (\<lambda>y. h_resource y = h_resource h) (handlers reg) = [h]"
    by (intro filter_same_key) (simp_all add: reg_inv_def)
  then show ?thesis by (simp add: fire_def)
qed

lemma at_most_one_entry:
  "distinct (map fst xs) \<Longrightarrow> length (filter (\<lambda>entry. fst entry = k) xs) \<le> 1"
proof (induction xs)
  case Nil
  then show ?case by simp
next
  case (Cons y ys)
  show ?case
  proof (cases "fst y = k")
    case True
    with Cons.prems have "\<forall>z \<in> set ys. fst z \<noteq> k"
      by (auto simp: image_iff)
    then have "filter (\<lambda>entry. fst entry = k) ys = []"
      by (simp add: filter_empty_conv)
    with True show ?thesis by simp
  next
    case False
    with Cons show ?thesis by simp
  qed
qed

lemmas reg_eval = schedule_automation_def hotkey_automation_def example_automation_def
  example_env_def empty_registry_def register_def unregister_def registerScheduleTrigger_def
  registerHotkeyTrigger_def install_def triggers_set_def stop_trigger_def fire_def Let_def
  AList.delete_eq

text \<open>
  Claim C8, as amended. A poll fires if and only if the content differs from the last
  content polled and no regular expression was built or the one built accepts the content;
  none is built when no pattern is configured, when the pattern is the empty string, and
  when the pattern is not a valid regular expression. A poll that fires passes the first
  500 characters of the content and the time; every poll leaves the content as the last
  one polled and keeps the expression, so polling the same content again does not fire.
  The callback starts from the clipboard text at registration and the expression of the
  configured pattern.
\<close>

theorem clipboard_poll_fires:
  "(cc_regex c = clipboard_regex env pat \<longrightarrow>
      (fst (clipboard_poll c currentContent now) \<noteq> None \<longleftrightarrow>
         currentContent \<noteq> cc_lastContent c \<and>
         (pat = None \<or> pat = Some [] \<or>
          (\<exists>p. pat = Some p \<and>
               (RegExp env p = None \<or> (\<exists>test. RegExp env p = Some test \<and> test currentContent)))))) \<and>
   (fst (clipboard_poll c currentContent now) = None \<or>
    fst (clipboard_poll c currentContent now) =
      Some [(''content'', JString (take 500 currentContent)), (''firedAt'', JString now)]) \<and>
   length (take 500 currentContent) \<le> 500 \<and>
   cc_lastContent (snd (clipboard_poll c currentContent now)) = currentContent \<and>
   cc_regex (snd (clipboard_poll c currentContent now)) = cc_regex c \<and>
   fst (clipboard_poll (snd (clipboard_poll c currentContent now)) currentContent now') = None \<and>
   map_of (closures (registerClipboardTrigger env automation pat reg)) (next_handle reg) =
     Some \<lparr>cc_lastContent = clipboard_readText env, cc_regex = clipboard_regex env pat\<rparr>"
proof -
  have a: "cc_regex c = clipboard_regex env pat \<longrightarrow>
      (fst (clipboard_poll c currentContent now) \<noteq> None \<longleftrightarrow>
         currentContent \<noteq> cc_lastContent c \<and>
         (pat = None \<or> pat = Some [] \<or>
          (\<exists>p. pat = Some p \<and>
               (RegExp env p = None \<or> (\<exists>test. RegExp env p = Some test \<and> test currentContent)))))"
    by (cases pat) (auto simp: clipboard_poll_def clipboard_regex_def Let_def split: option.splits)
  have b: "fst (clipboard_poll c currentContent now) = None \<or>
    fst (clipboard_poll c currentContent now) =
      Some [(''content'', JString (take 500 currentContent)), (''firedAt'', JString now)]"
    by (simp add: clipboard_poll_def Let_def split: option.splits)
  have d: "cc_lastContent (snd (clipboard_poll c currentContent now)) = currentContent"
    "cc_regex (snd (clipboard_poll c currentContent now)) = cc_regex c"
    by (simp_all add: clipboard_poll_def Let_def split: option.splits)
  have e: "fst (clipboard_poll (snd (clipboard_poll c currentContent now)) currentContent now') = None"
    using d(1) by (simp add: clipboard_poll_def[of "snd (clipboard_poll c currentContent now)"])
  have f: "map_of (closures (registerClipboardTrigger env automation pat reg)) (next_handle reg) =
     Some \<lparr>cc_lastContent = clipboard_readText env, cc_regex = clipboard_regex env pat\<rparr>"
    by (simp add: registerClipboardTrigger_def Let_def install_def triggers_set_def update_conv')
  from a b d e f show ?thesis by simp
qed

theorem clipboard_poll_fires_witness:
  "cc_regex \<lparr>cc_lastContent = ''old'', cc_regex = clipboard_regex example_env (Some ''http'')\<rparr> =
     clipboard_regex example_env (Some ''http'') \<and>
   fst (clipboard_poll \<lparr>cc_lastContent = ''old'', cc_regex = clipboard_regex example_env (Some ''http'')\<rparr>
          ''see http'' ''T1'') \<noteq> None \<and>
   fst (clipboard_poll \<lparr>cc_lastContent = ''old'', cc_regex = clipboard_regex example_env (Some ''http'')\<rparr>
          ''nothing'' ''T1'') = None \<and>
   fst (clipboard_poll \<lparr>cc_lastContent = ''old'', cc_regex = clipboard_regex example_env (Some ''http'')\<rparr>
          ''old'' ''T1'') = None"
proof -
  let ?c = "\<lparr>cc_lastContent = ''old'', cc_regex = clipboard_regex example_env (Some ''http'')\<rparr>"
  have h: "cc_regex ?c = clipboard_regex example_env (Some ''http'')" by simp
  have r: "RegExp example_env ''http'' = Some (contains ''http'')"
    by (simp add: example_env_def)
  from clipboard_poll_fires[of ?c example_env "Some ''http''" "''see http''" "''T1''"] h r
  have 1: "fst (clipboard_poll ?c ''see http'' ''T1'') \<noteq> None"
    by simp
  from clipboard_poll_fires[of ?c example_env "Some ''http''" "''nothing''" "''T1''"] h r
  have 2: "fst (clipboard_poll ?c ''nothing'' ''T1'') = None"
    by simp
  from clipboard_poll_fires[of ?c example_env "Some ''http''" "''old''" "''T1''"] h
  have 3: "fst (clipboard_poll ?c ''old'' ''T1'') = None"
    by simp
  from h 1 2 3 show ?thesis by blast
qed

text \<open>
  The claim as it stands fails for a configured pattern that is not a valid regular
  expression: the constructor throws, the trigger is registered without an expression, and
  new content fires although it matches nothing.
\<close>

theorem clipboard_invalid_pattern_fires:
  "pattern (a_triggerConfig (clipboard_automation (Some ''(''))) = Some ''('' \<and>
   RegExp example_env ''('' = None \<and>
   fired (clipboard_tick 0 ''new'' ''T1''
            (register example_env (clipboard_automation (Some ''('')) empty_registry)) =
     [\<lparr>tc_workspaceId = ''w1'', tc_automationId = ''auto1'', tc_triggeredBy = Clipboard,
       tc_triggerContext = [(''content'', JString ''new''), (''firedAt'', JString ''T1'')]\<rparr>]"
  by (simp add: clipboard_automation_def example_automation_def example_env_def empty_registry_def
      register_def unregister_def registerClipboardTrigger_def clipboard_regex_def install_def
      triggers_set_def clipboard_tick_def clipboard_poll_def fire_def Let_def)

section \<open>Replacing a registration\<close>

text \<open>What each registration strategy installs, records and fires, exactly.\<close>

lemma install_simps [simp]:
  "handlers (install r a ty reg) = handlers reg @ [callback a ty r]"
  "triggers (install r a ty reg) = triggers reg"
  "fired (install r a ty reg) = fired reg"
  "next_handle (install r a ty reg) = next_handle reg"
  "closures (install r a ty reg) = closures reg"
  by (simp_all add: install_def callback_def)

lemma triggers_set_simps [simp]:
  "handlers (triggers_set a ty rs reg) = handlers reg"
  "triggers (triggers_set a ty rs reg) =
     AList.update (a_id a) \<lparr>rt_automationId = a_id a, rt_type = ty, rt_stop = rs\<rparr> (triggers reg)"
  "fired (triggers_set a ty rs reg) = fired reg"
  "next_handle (triggers_set a ty rs reg) = next_handle reg"
  by (simp_all add: triggers_set_def)

lemma open_watchers_exact:
  "open_watchers env a ps ws reg = (ws', reg') \<Longrightarrow>
     ws' = ws @ [next_handle reg..<next_handle reg +
                        length (filter (\<lambda>p. existsSync env p \<and> watch_succeeds env p) ps)] \<and>
     handlers reg' = handlers reg @ map (\<lambda>w. callback a FileChange (FsWatcher w))
           [next_handle reg..<next_handle reg +
              length (filter (\<lambda>p. existsSync env p \<and> watch_succeeds env p) ps)] \<and>
     triggers reg' = triggers reg \<and> fired reg' = fired reg"
proof (induction ps arbitrary: ws reg)
  case Nil
  then show ?case by simp
next
  case (Cons p ps)
  let ?k = "length (filter (\<lambda>p. existsSync env p \<and> watch_succeeds env p) ps)"
  let ?n = "next_handle reg"
  let ?reg1 = "install (FsWatcher ?n) a FileChange (reg\<lparr>next_handle := Suc ?n\<rparr>)"
  have u: "[?n..<?n + Suc ?k] = ?n # [Suc ?n..<Suc ?n + ?k]"
    using upt_conv_Cons[of ?n "?n + Suc ?k"] by simp
  show ?case
  proof (cases "existsSync env p \<and> watch_succeeds env p")
    case False
    with Cons.prems have "open_watchers env a ps ws reg = (ws', reg')" by (auto split: if_splits)
    from Cons.IH[OF this] False show ?thesis by simp
  next
    case True
    with Cons.prems have "open_watchers env a ps (ws @ [?n]) ?reg1 = (ws', reg')"
      by (simp add: Let_def)
    from Cons.IH[OF this] True u show ?thesis by simp
  qed
qed

lemma add_power_listeners_exact:
  "add_power_listeners a evs ls reg = (ls', reg') \<Longrightarrow>
     ls' = ls @ map (\<lambda>(e, h). PowerListener e h)
                 (zip (List.map_filter eventMap evs)
                      [next_handle reg..<next_handle reg + length (List.map_filter eventMap evs)]) \<and>
     handlers reg' = handlers reg @ map (callback a PowerEvent)
           (map (\<lambda>(e, h). PowerListener e h)
                 (zip (List.map_filter eventMap evs)
                      [next_handle reg..<next_handle reg + length (List.map_filter eventMap evs)])) \<and>
     triggers reg' = triggers reg \<and> fired reg' = fired reg"
proof (induction evs arbitrary: ls reg)
  case Nil
  then show ?case by (simp add: map_filter_simps)
next
  case (Cons ev evs)
  let ?v = "List.map_filter eventMap evs"
  let ?n = "next_handle reg"
  have u: "[?n..<?n + Suc (length ?v)] = ?n # [Suc ?n..<Suc ?n + length ?v]"
    using upt_conv_Cons[of ?n "?n + Suc (length ?v)"] by simp
  show ?case
  proof (cases "eventMap ev")
    case None
    with Cons.prems have "add_power_listeners a evs ls reg = (ls', reg')" by simp
    from Cons.IH[OF this] None show ?thesis by (simp add: map_filter_simps)
  next
    case (Some e)
    let ?reg1 = "install (PowerListener e ?n) a PowerEvent (reg\<lparr>next_handle := Suc ?n\<rparr>)"
    from Some Cons.prems have "add_power_listeners a evs (ls @ [PowerListener e ?n]) ?reg1 = (ls', reg')"
      by (simp add: Let_def)
    from Cons.IH[OF this] Some u show ?thesis by (simp add: map_filter_simps)
  qed
qed

lemma window_event_simps [simp]:
  "window_event ''app-ready'' = None"
  "window_event ''window-focus'' = Some ''browser-window-focus''"
  "window_event ''window-blur'' = Some ''browser-window-blur''"
  by (simp_all add: window_event_def)

lemma add_app_listeners_exact:
  "add_app_listeners env a evs ls reg = (ls', reg') \<Longrightarrow>
     ls' = ls @ map (\<lambda>(e, h). AppListener e h)
                 (zip (List.map_filter window_event evs)
                      [next_handle reg..<next_handle reg + length (List.map_filter window_event evs)]) \<and>
     handlers reg' = handlers reg @ map (callback a AppEvent)
           (map (\<lambda>(e, h). AppListener e h)
                 (zip (List.map_filter window_event evs)
                      [next_handle reg..<next_handle reg + length (List.map_filter window_event evs)])) \<and>
     triggers reg' = triggers reg \<and>
     fired reg' = fired reg @
       map (\<lambda>ev. \<lparr>tc_workspaceId = a_workspaceId a, tc_automationId = a_id a,
                   tc_triggeredBy = AppEvent,
                   tc_triggerContext = [(''event'', JString ev), (''firedAt'', JString (now_iso env))]\<rparr>)
           (filter (\<lambda>ev. ev = ''app-ready'') evs)"
proof (induction evs arbitrary: ls reg)
  case Nil
  then show ?case by (simp add: map_filter_simps)
next
  case (Cons ev evs)
  let ?v = "List.map_filter window_event evs"
  let ?n = "next_handle reg"
  have u: "[?n..<?n + Suc (length ?v)] = ?n # [Suc ?n..<Suc ?n + length ?v]"
    using upt_conv_Cons[of ?n "?n + Suc (length ?v)"] by simp
  consider (ready) "ev = ''app-ready''" | (focus) "ev = ''window-focus''"
    | (blur) "ev = ''window-blur''"
    | (other) "ev \<noteq> ''app-ready''" "ev \<noteq> ''window-focus''" "ev \<noteq> ''window-blur''"
    by blast
  then show ?case
  proof cases
    case ready
    let ?reg1 = "onTrigger a AppEvent [(''event'', JString ev), (''firedAt'', JString (now_iso env))] reg"
    from ready Cons.prems have r: "add_app_listeners env a evs ls ?reg1 = (ls', reg')" by simp
    from Cons.IH[OF r] ready show ?thesis
      by (simp add: map_filter_simps onTrigger_def)
  next
    case focus
    let ?reg1 = "install (AppListener ''browser-window-focus'' ?n) a AppEvent (reg\<lparr>next_handle := Suc ?n\<rparr>)"
    from focus Cons.prems
    have r: "add_app_listeners env a evs (ls @ [AppListener ''browser-window-focus'' ?n]) ?reg1 = (ls', reg')"
      by (simp add: Let_def)
    from Cons.IH[OF r] focus u show ?thesis
      by (simp add: map_filter_simps)
  next
    case blur
    let ?reg1 = "install (AppListener ''browser-window-blur'' ?n) a AppEvent (reg\<lparr>next_handle := Suc ?n\<rparr>)"
    from blur Cons.prems
    have r: "add_app_listeners env a evs (ls @ [AppListener ''browser-window-blur'' ?n]) ?reg1 = (ls', reg')"
      by (simp add: Let_def)
    from Cons.IH[OF r] blur u show ?thesis
      by (simp add: map_filter_simps)
  next
    case other
    with Cons.prems have r: "add_app_listeners env a evs ls reg = (ls', reg')" by simp
    have we: "window_event ev = None" using other by (simp add: window_event_def)
    from Cons.IH[OF r] other show ?thesis by (simp add: map_filter_simps we)
  qed
qed

lemma count_map_filter:
  "length (filter (\<lambda>x. x = e) (List.map_filter f evs)) = length (filter (\<lambda>ev. f ev = Some e) evs)"
  by (induction evs) (auto simp: map_filter_simps split: option.splits)

lemma count_power_listeners:
  "length ns = length v \<Longrightarrow>
     length (filter (listens (PowerSignal e)) (map (\<lambda>(e, h). PowerListener e h) (zip v ns))) =
       length (filter (\<lambda>x. x = e) v)"
  by (induction v ns rule: list_induct2') auto

lemma count_app_listeners:
  "length ns = length v \<Longrightarrow>
     length (filter (listens (AppSignal e)) (map (\<lambda>(e, h). AppListener e h) (zip v ns))) =
       length (filter (\<lambda>x. x = e) v)"
  by (induction v ns rule: list_induct2') auto

lemma distinct_count_le_one: "distinct xs \<Longrightarrow> length (filter (\<lambda>r. r = x) xs) \<le> 1"
  by (induction xs) (auto simp: filter_empty_conv)

lemma registerScheduleTrigger_exact:
  "handlers (registerScheduleTrigger env a c tz reg) =
     handlers reg @ map (callback a Schedule)
       (case c of None \<Rightarrow> []
        | Some x \<Rightarrow> if x \<noteq> [] \<and> cron_accepts env x tz then [CronJob (next_handle reg)] else [])"
  "triggers (registerScheduleTrigger env a c tz reg) =
     (if (case c of None \<Rightarrow> []
          | Some x \<Rightarrow> if x \<noteq> [] \<and> cron_accepts env x tz then [CronJob (next_handle reg)] else []) \<noteq> []
      then AList.update (a_id a)
             \<lparr>rt_automationId = a_id a, rt_type = Schedule,
               rt_stop = (case c of None \<Rightarrow> []
                          | Some x \<Rightarrow> if x \<noteq> [] \<and> cron_accepts env x tz
                                      then [CronJob (next_handle reg)] else [])\<rparr> (triggers reg)
      else triggers reg)"
  "fired (registerScheduleTrigger env a c tz reg) = fired reg"
  by (simp_all add: registerScheduleTrigger_def Let_def split: option.splits)

lemma registerHotkeyTrigger_exact:
  "handlers (registerHotkeyTrigger env a accel reg) =
     handlers reg @ map (callback a Hotkey)
       (if accel \<noteq> [] \<and> shortcut_granted env accel \<and>
           GlobalShortcut accel \<notin> h_resource ` set (handlers reg)
        then [GlobalShortcut accel] else [])"
  "triggers (registerHotkeyTrigger env a accel reg) =
     (if (if accel \<noteq> [] \<and> shortcut_granted env accel \<and>
             GlobalShortcut accel \<notin> h_resource ` set (handlers reg)
          then [GlobalShortcut accel] else []) \<noteq> []
      then AList.update (a_id a)
             \<lparr>rt_automationId = a_id a, rt_type = Hotkey,
               rt_stop = (if accel \<noteq> [] \<and> shortcut_granted env accel \<and>
                             GlobalShortcut accel \<notin> h_resource ` set (handlers reg)
                          then [GlobalShortcut accel] else [])\<rparr> (triggers reg)
      else triggers reg)"
  "fired (registerHotkeyTrigger env a accel reg) = fired reg"
  by (simp_all add: registerHotkeyTrigger_def Let_def)

lemma registerFileChangeTrigger_exact:
  "handlers (registerFileChangeTrigger env a ps reg) =
     handlers reg @ map (callback a FileChange)
       (map FsWatcher [next_handle reg..<next_handle reg +
          length (filter (\<lambda>p. existsSync env p \<and> watch_succeeds env p) ps)])"
  "triggers (registerFileChangeTrigger env a ps reg) =
     (if map FsWatcher [next_handle reg..<next_handle reg +
          length (filter (\<lambda>p. existsSync env p \<and> watch_succeeds env p) ps)] \<noteq> []
      then AList.update (a_id a)
             \<lparr>rt_automationId = a_id a, rt_type = FileChange,
               rt_stop = map FsWatcher [next_handle reg..<next_handle reg +
                  length (filter (\<lambda>p. existsSync env p \<and> watch_succeeds env p) ps)]\<rparr> (triggers reg)
      else triggers reg)"
  "fired (registerFileChangeTrigger env a ps reg) = fired reg"
proof -
  obtain ws reg1 where r: "open_watchers env a ps [] reg = (ws, reg1)"
    by (cases "open_watchers env a ps [] reg")
  note e = open_watchers_exact[OF r]
  show "handlers (registerFileChangeTrigger env a ps reg) =
     handlers reg @ map (callback a FileChange)
       (map FsWatcher [next_handle reg..<next_handle reg +
          length (filter (\<lambda>p. existsSync env p \<and> watch_succeeds env p) ps)])"
    using e r by (cases "ps = []") (simp_all add: registerFileChangeTrigger_def comp_def)
  show "triggers (registerFileChangeTrigger env a ps reg) =
     (if map FsWatcher [next_handle reg..<next_handle reg +
          length (filter (\<lambda>p. existsSync env p \<and> watch_succeeds env p) ps)] \<noteq> []
      then AList.update (a_id a)
             \<lparr>rt_automationId = a_id a, rt_type = FileChange,
               rt_stop = map FsWatcher [next_handle reg..<next_handle reg +
                  length (filter (\<lambda>p. existsSync env p \<and> watch_succeeds env p) ps)]\<rparr> (triggers reg)
      else triggers reg)"
    using e r by (cases "ps = []") (simp_all add: registerFileChangeTrigger_def)
  show "fired (registerFileChangeTrigger env a ps reg) = fired reg"
    using e r by (cases "ps = []") (simp_all add: registerFileChangeTrigger_def)
qed

lemma registerPowerEventTrigger_exact:
  "handlers (registerPowerEventTrigger a evs reg) =
     handlers reg @ map (callback a PowerEvent)
       (map (\<lambda>(e, h). PowerListener e h)
          (zip (List.map_filter eventMap evs)
               [next_handle reg..<next_handle reg + length (List.map_filter eventMap evs)]))"
  "triggers (registerPowerEventTrigger a evs reg) =
     (if map (\<lambda>(e, h). PowerListener e h)
          (zip (List.map_filter eventMap evs)
               [next_handle reg..<next_handle reg + length (List.map_filter eventMap evs)]) \<noteq> []
      then AList.update (a_id a)
             \<lparr>rt_automationId = a_id a, rt_type = PowerEvent,
               rt_stop = map (\<lambda>(e, h). PowerListener e h)
                  (zip (List.map_filter eventMap evs)
                       [next_handle reg..<next_handle reg + length (List.map_filter eventMap evs)])\<rparr>
             (triggers reg)
      else triggers reg)"
  "fired (registerPowerEventTrigger a evs reg) = fired reg"
proof -
  obtain ls reg1 where r: "add_power_listeners a evs [] reg = (ls, reg1)"
    by (cases "add_power_listeners a evs [] reg")
  note e = add_power_listeners_exact[OF r]
  show "handlers (registerPowerEventTrigger a evs reg) =
     handlers reg @ map (callback a PowerEvent)
       (map (\<lambda>(e, h). PowerListener e h)
          (zip (List.map_filter eventMap evs)
               [next_handle reg..<next_handle reg + length (List.map_filter eventMap evs)]))"
    using e r by (cases "evs = []") (simp_all add: registerPowerEventTrigger_def map_filter_simps)
  show "triggers (registerPowerEventTrigger a evs reg) =
     (if map (\<lambda>(e, h). PowerListener e h)
          (zip (List.map_filter eventMap evs)
               [next_handle reg..<next_handle reg + length (List.map_filter eventMap evs)]) \<noteq> []
      then AList.update (a_id a)
             \<lparr>rt_automationId = a_id a, rt_type = PowerEvent,
               rt_stop = map (\<lambda>(e, h). PowerListener e h)
                  (zip (List.map_filter eventMap evs)
                       [next_handle reg..<next_handle reg + length (List.map_filter eventMap evs)])\<rparr>
             (triggers reg)
      else triggers reg)"
    using e r by (cases "evs = []") (simp_all add: registerPowerEventTrigger_def map_filter_simps)
  show "fired (registerPowerEventTrigger a evs reg) = fired reg"
    using e r by (cases "evs = []") (simp_all add: registerPowerEventTrigger_def)
qed

lemma registerAppEventTrigger_exact:
  "handlers (registerAppEventTrigger env a evs reg) =
     handlers reg @ map (callback a AppEvent)
       (map (\<lambda>(e, h). AppListener e h)
          (zip (List.map_filter window_event evs)
               [next_handle reg..<next_handle reg + length (List.map_filter window_event evs)]))"
  "triggers (registerAppEventTrigger env a evs reg) =
     (if map (\<lambda>(e, h). AppListener e h)
          (zip (List.map_filter window_event evs)
               [next_handle reg..<next_handle reg + length (List.map_filter window_event evs)]) \<noteq> []
         \<or> ''app-ready'' \<in> set evs
      then AList.update (a_id a)
             \<lparr>rt_automationId = a_id a, rt_type = AppEvent,
               rt_stop = map (\<lambda>(e, h). AppListener e h)
                  (zip (List.map_filter window_event evs)
                       [next_handle reg..<next_handle reg + length (List.map_filter window_event evs)])\<rparr>
             (triggers reg)
      else triggers reg)"
  "fired (registerAppEventTrigger env a evs reg) =
     fired reg @
       map (\<lambda>ev. \<lparr>tc_workspaceId = a_workspaceId a, tc_automationId = a_id a,
                   tc_triggeredBy = AppEvent,
                   tc_triggerContext = [(''event'', JString ev), (''firedAt'', JString (now_iso env))]\<rparr>)
           (filter (\<lambda>ev. ev = ''app-ready'') evs)"
proof -
  obtain ls reg1 where r: "add_app_listeners env a evs [] reg = (ls, reg1)"
    by (cases "add_app_listeners env a evs [] reg")
  note e = add_app_listeners_exact[OF r]
  show "handlers (registerAppEventTrigger env a evs reg) =
     handlers reg @ map (callback a AppEvent)
       (map (\<lambda>(e, h). AppListener e h)
          (zip (List.map_filter window_event evs)
               [next_handle reg..<next_handle reg + length (List.map_filter window_event evs)]))"
    using e r by (cases "evs = []") (simp_all add: registerAppEventTrigger_def map_filter_simps)
  show "triggers (registerAppEventTrigger env a evs reg) =
     (if map (\<lambda>(e, h). AppListener e h)
          (zip (List.map_filter window_event evs)
               [next_handle reg..<next_handle reg + length (List.map_filter window_event evs)]) \<noteq> []
         \<or> ''app-ready'' \<in> set evs
      then AList.update (a_id a)
             \<lparr>rt_automationId = a_id a, rt_type = AppEvent,
               rt_stop = map (\<lambda>(e, h). AppListener e h)
                  (zip (List.map_filter window_event evs)
                       [next_handle reg..<next_handle reg + length (List.map_filter window_event evs)])\<rparr>
             (triggers reg)
      else triggers reg)"
    using e r by (cases "evs = []") (simp_all add: registerAppEventTrigger_def map_filter_simps)
  show "fired (registerAppEventTrigger env a evs reg) =
     fired reg @
       map (\<lambda>ev. \<lparr>tc_workspaceId = a_workspaceId a, tc_automationId = a_id a,
                   tc_triggeredBy = AppEvent,
                   tc_triggerContext = [(''event'', JString ev), (''firedAt'', JString (now_iso env))]\<rparr>)
           (filter (\<lambda>ev. ev = ''app-ready'') evs)"
    using e r by (cases "evs = []") (simp_all add: registerAppEventTrigger_def)
qed

lemma registerClipboardTrigger_exact:
  "handlers (registerClipboardTrigger env a pat reg) =
     handlers reg @ map (callback a Clipboard) [IntervalTimer (next_handle reg)]"
  "triggers (registerClipboardTrigger env a pat reg) =
     AList.update (a_id a)
       \<lparr>rt_automationId = a_id a, rt_type = Clipboard, rt_stop = [IntervalTimer (next_handle reg)]\<rparr>
       (triggers reg)"
  "fired (registerClipboardTrigger env a pat reg) = fired reg"
  by (simp_all add: registerClipboardTrigger_def Let_def)

lemma registerFolderActionTrigger_exact:
  "handlers (registerFolderActionTrigger env a folder reg) =
     handlers reg @ map (callback a FolderAction)
       (if folder \<noteq> [] \<and> existsSync env folder \<and> watch_succeeds env folder
        then [FsWatcher (next_handle reg)] else [])"
  "triggers (registerFolderActionTrigger env a folder reg) =
     (if (if folder \<noteq> [] \<and> existsSync env folder \<and> watch_succeeds env folder
          then [FsWatcher (next_handle reg)] else []) \<noteq> []
      then AList.update (a_id a)
             \<lparr>rt_automationId = a_id a, rt_type = FolderAction,
               rt_stop = (if folder \<noteq> [] \<and> existsSync env folder \<and> watch_succeeds env folder
                          then [FsWatcher (next_handle reg)] else [])\<rparr> (triggers reg)
      else triggers reg)"
  "fired (registerFolderActionTrigger env a folder reg) = fired reg"
  by (simp_all add: registerFolderActionTrigger_def Let_def)

lemma unregister_fired [simp]: "fired (unregister x reg) = fired reg"
  by (simp add: unregister_def Let_def stop_trigger_def split: option.splits)

lemma register_exact:
  assumes "reg_inv reg"
  shows "subscriptions (a_id a) (register env a reg) =
     (case a_triggerConfig a of
        ScheduleTriggerConfig c r tz \<Rightarrow>
          (case c of None \<Rightarrow> []
           | Some x \<Rightarrow> if x \<noteq> [] \<and> cron_accepts env x tz then [CronJob (next_handle reg)] else [])
      | FileChangeTriggerConfig ps pats evs d \<Rightarrow>
          map FsWatcher [(next_handle reg)..<(next_handle reg) + length (filter (\<lambda>p. existsSync env p \<and> watch_succeeds env p) ps)]
      | HotkeyTriggerConfig accel \<Rightarrow>
          if accel \<noteq> [] \<and> shortcut_granted env accel \<and>
             GlobalShortcut accel \<notin> h_resource ` set (handlers (unregister (a_id a) reg))
          then [GlobalShortcut accel] else []
      | WebhookTriggerConfig p sec \<Rightarrow> []
      | DeepLinkTriggerConfig \<Rightarrow> []
      | AppEventTriggerConfig evs \<Rightarrow>
          map (\<lambda>(e, h). AppListener e h)
            (zip (List.map_filter window_event evs)
                 [(next_handle reg)..<(next_handle reg) + length (List.map_filter window_event evs)])
      | PowerEventTriggerConfig evs \<Rightarrow>
          map (\<lambda>(e, h). PowerListener e h)
            (zip (List.map_filter eventMap evs)
                 [(next_handle reg)..<(next_handle reg) + length (List.map_filter eventMap evs)])
      | ClipboardTriggerConfig pat poll \<Rightarrow> [IntervalTimer (next_handle reg)]
      | FolderActionTriggerConfig folder exts np mn mx dn \<Rightarrow>
          if folder \<noteq> [] \<and> existsSync env folder \<and> watch_succeeds env folder
          then [FsWatcher (next_handle reg)] else []
      | ManualTriggerConfig \<Rightarrow> [])"
    and "map_of (triggers (register env a reg)) (a_id a) =
      (if subscriptions (a_id a) (register env a reg) \<noteq> [] \<or>
          (case a_triggerConfig a of AppEventTriggerConfig evs \<Rightarrow> ''app-ready'' \<in> set evs | _ \<Rightarrow> False)
       then Some \<lparr>rt_automationId = a_id a, rt_type = config_type (a_triggerConfig a),
                   rt_stop = subscriptions (a_id a) (register env a reg)\<rparr>
       else None)"
    and "fired (register env a reg) = fired reg @
       (case a_triggerConfig a of
          AppEventTriggerConfig evs \<Rightarrow>
            map (\<lambda>ev. \<lparr>tc_workspaceId = a_workspaceId a, tc_automationId = a_id a,
                        tc_triggeredBy = AppEvent,
                        tc_triggerContext = [(''event'', JString ev), (''firedAt'', JString (now_iso env))]\<rparr>)
                (filter (\<lambda>ev. ev = ''app-ready'') evs)
        | _ \<Rightarrow> [])"
proof -
  let ?R0 = "unregister (a_id a) reg"
  define RS where "RS =
     (case a_triggerConfig a of
        ScheduleTriggerConfig c r tz \<Rightarrow>
          (case c of None \<Rightarrow> []
           | Some x \<Rightarrow> if x \<noteq> [] \<and> cron_accepts env x tz then [CronJob (next_handle reg)] else [])
      | FileChangeTriggerConfig ps pats evs d \<Rightarrow>
          map FsWatcher [(next_handle reg)..<(next_handle reg) + length (filter (\<lambda>p. existsSync env p \<and> watch_succeeds env p) ps)]
      | HotkeyTriggerConfig accel \<Rightarrow>
          if accel \<noteq> [] \<and> shortcut_granted env accel \<and>
             GlobalShortcut accel \<notin> h_resource ` set (handlers (unregister (a_id a) reg))
          then [GlobalShortcut accel] else []
      | WebhookTriggerConfig p sec \<Rightarrow> []
      | DeepLinkTriggerConfig \<Rightarrow> []
      | AppEventTriggerConfig evs \<Rightarrow>
          map (\<lambda>(e, h). AppListener e h)
            (zip (List.map_filter window_event evs)
                 [(next_handle reg)..<(next_handle reg) + length (List.map_filter window_event evs)])
      | PowerEventTriggerConfig evs \<Rightarrow>
          map (\<lambda>(e, h). PowerListener e h)
            (zip (List.map_filter eventMap evs)
                 [(next_handle reg)..<(next_handle reg) + length (List.map_filter eventMap evs)])
      | ClipboardTriggerConfig pat poll \<Rightarrow> [IntervalTimer (next_handle reg)]
      | FolderActionTriggerConfig folder exts np mn mx dn \<Rightarrow>
          if folder \<noteq> [] \<and> existsSync env folder \<and> watch_succeeds env folder
          then [FsWatcher (next_handle reg)] else []
      | ManualTriggerConfig \<Rightarrow> [])"
  have RS': "RS =
     (case a_triggerConfig a of
        ScheduleTriggerConfig c r tz \<Rightarrow>
          (case c of None \<Rightarrow> []
           | Some x \<Rightarrow> if x \<noteq> [] \<and> cron_accepts env x tz then [CronJob (next_handle ?R0)] else [])
      | FileChangeTriggerConfig ps pats evs d \<Rightarrow>
          map FsWatcher [(next_handle ?R0)..<(next_handle ?R0) + length (filter (\<lambda>p. existsSync env p \<and> watch_succeeds env p) ps)]
      | HotkeyTriggerConfig accel \<Rightarrow>
          if accel \<noteq> [] \<and> shortcut_granted env accel \<and>
             GlobalShortcut accel \<notin> h_resource ` set (handlers (unregister (a_id a) reg))
          then [GlobalShortcut accel] else []
      | WebhookTriggerConfig p sec \<Rightarrow> []
      | DeepLinkTriggerConfig \<Rightarrow> []
      | AppEventTriggerConfig evs \<Rightarrow>
          map (\<lambda>(e, h). AppListener e h)
            (zip (List.map_filter window_event evs)
                 [(next_handle ?R0)..<(next_handle ?R0) + length (List.map_filter window_event evs)])
      | PowerEventTriggerConfig evs \<Rightarrow>
          map (\<lambda>(e, h). PowerListener e h)
            (zip (List.map_filter eventMap evs)
                 [(next_handle ?R0)..<(next_handle ?R0) + length (List.map_filter eventMap evs)])
      | ClipboardTriggerConfig pat poll \<Rightarrow> [IntervalTimer (next_handle ?R0)]
      | FolderActionTriggerConfig folder exts np mn mx dn \<Rightarrow>
          if folder \<noteq> [] \<and> existsSync env folder \<and> watch_succeeds env folder
          then [FsWatcher (next_handle ?R0)] else []
      | ManualTriggerConfig \<Rightarrow> [])"
    unfolding RS_def unregister_next_handle ..
  have none: "filter (\<lambda>h. h_automationId h = a_id a) (handlers ?R0) = []"
    using unregister_removes_owned[OF assms, of _ "a_id a"] by (auto simp: filter_empty_conv)
  have t0: "map_of (triggers ?R0) (a_id a) = None" by (simp add: unregister_triggers)
  have h: "handlers (register env a reg) = handlers ?R0 @ map (callback a (config_type (a_triggerConfig a))) RS"
    unfolding register_def RS'
    by (cases "a_triggerConfig a")
       (simp_all add: registerScheduleTrigger_exact registerHotkeyTrigger_exact
          registerFileChangeTrigger_exact registerPowerEventTrigger_exact
          registerAppEventTrigger_exact registerClipboardTrigger_exact
          registerFolderActionTrigger_exact)
  have t: "triggers (register env a reg) =
       (if RS \<noteq> [] \<or> (case a_triggerConfig a of AppEventTriggerConfig evs \<Rightarrow> ''app-ready'' \<in> set evs | _ \<Rightarrow> False)
        then AList.update (a_id a)
               \<lparr>rt_automationId = a_id a, rt_type = config_type (a_triggerConfig a), rt_stop = RS\<rparr>
               (triggers ?R0)
        else triggers ?R0)"
    unfolding register_def RS'
    by (cases "a_triggerConfig a")
       (simp_all add: registerScheduleTrigger_exact registerHotkeyTrigger_exact
          registerFileChangeTrigger_exact registerPowerEventTrigger_exact
          registerAppEventTrigger_exact registerClipboardTrigger_exact
          registerFolderActionTrigger_exact)
  have s: "subscriptions (a_id a) (register env a reg) = RS"
    unfolding subscriptions_def h using none by (simp add: comp_def)
  show "subscriptions (a_id a) (register env a reg) =
     (case a_triggerConfig a of
        ScheduleTriggerConfig c r tz \<Rightarrow>
          (case c of None \<Rightarrow> []
           | Some x \<Rightarrow> if x \<noteq> [] \<and> cron_accepts env x tz then [CronJob (next_handle reg)] else [])
      | FileChangeTriggerConfig ps pats evs d \<Rightarrow>
          map FsWatcher [(next_handle reg)..<(next_handle reg) + length (filter (\<lambda>p. existsSync env p \<and> watch_succeeds env p) ps)]
      | HotkeyTriggerConfig accel \<Rightarrow>
          if accel \<noteq> [] \<and> shortcut_granted env accel \<and>
             GlobalShortcut accel \<notin> h_resource ` set (handlers (unregister (a_id a) reg))
          then [GlobalShortcut accel] else []
      | WebhookTriggerConfig p sec \<Rightarrow> []
      | DeepLinkTriggerConfig \<Rightarrow> []
      | AppEventTriggerConfig evs \<Rightarrow>
          map (\<lambda>(e, h). AppListener e h)
            (zip (List.map_filter window_event evs)
                 [(next_handle reg)..<(next_handle reg) + length (List.map_filter window_event evs)])
      | PowerEventTriggerConfig evs \<Rightarrow>
          map (\<lambda>(e, h). PowerListener e h)
            (zip (List.map_filter eventMap evs)
                 [(next_handle reg)..<(next_handle reg) + length (List.map_filter eventMap evs)])
      | ClipboardTriggerConfig pat poll \<Rightarrow> [IntervalTimer (next_handle reg)]
      | FolderActionTriggerConfig folder exts np mn mx dn \<Rightarrow>
          if folder \<noteq> [] \<and> existsSync env folder \<and> watch_succeeds env folder
          then [FsWatcher (next_handle reg)] else []
      | ManualTriggerConfig \<Rightarrow> [])"
    using s unfolding RS_def .
  show "map_of (triggers (register env a reg)) (a_id a) =
      (if subscriptions (a_id a) (register env a reg) \<noteq> [] \<or>
          (case a_triggerConfig a of AppEventTriggerConfig evs \<Rightarrow> ''app-ready'' \<in> set evs | _ \<Rightarrow> False)
       then Some \<lparr>rt_automationId = a_id a, rt_type = config_type (a_triggerConfig a),
                   rt_stop = subscriptions (a_id a) (register env a reg)\<rparr>
       else None)"
    unfolding s t using t0 by (simp add: update_conv')
  show "fired (register env a reg) = fired reg @
       (case a_triggerConfig a of
          AppEventTriggerConfig evs \<Rightarrow>
            map (\<lambda>ev. \<lparr>tc_workspaceId = a_workspaceId a, tc_automationId = a_id a,
                        tc_triggeredBy = AppEvent,
                        tc_triggerContext = [(''event'', JString ev), (''firedAt'', JString (now_iso env))]\<rparr>)
                (filter (\<lambda>ev. ev = ''app-ready'') evs)
        | _ \<Rightarrow> [])"
    unfolding register_def
    by (cases "a_triggerConfig a")
       (simp_all add: registerScheduleTrigger_exact registerHotkeyTrigger_exact
          registerFileChangeTrigger_exact registerPowerEventTrigger_exact
          registerAppEventTrigger_exact registerClipboardTrigger_exact
          registerFolderActionTrigger_exact)
qed

lemma calls_of_signal:
  assumes "\<forall>h \<in> set (handlers reg). h_automationId h = i \<longrightarrow> h_workspaceId h = w \<and> h_type h = ty"
  shows "filter (\<lambda>c. tc_automationId c = i)
                (drop (length (fired reg)) (fired (host_emits sig ctx reg))) =
           replicate (length (filter (listens sig) (subscriptions i reg)))
             \<lparr>tc_workspaceId = w, tc_automationId = i, tc_triggeredBy = ty, tc_triggerContext = ctx\<rparr>"
proof -
  have "filter (\<lambda>c. tc_automationId c = i)
          (map (\<lambda>h. \<lparr>tc_workspaceId = h_workspaceId h, tc_automationId = h_automationId h,
                      tc_triggeredBy = h_type h, tc_triggerContext = ctx\<rparr>)
               (filter (\<lambda>h. listens sig (h_resource h)) hs)) =
        replicate (length (filter (listens sig)
                     (map h_resource (filter (\<lambda>h. h_automationId h = i) hs))))
          \<lparr>tc_workspaceId = w, tc_automationId = i, tc_triggeredBy = ty, tc_triggerContext = ctx\<rparr>"
    if "\<forall>h \<in> set hs. h_automationId h = i \<longrightarrow> h_workspaceId h = w \<and> h_type h = ty" for hs
    using that by (induction hs) auto
  from this[OF assms] show ?thesis
    by (simp add: host_emits_def subscriptions_def)
qed

lemma single_listener:
  assumes "distinct rs" and "\<forall>e. sig \<noteq> PowerSignal e \<and> sig \<noteq> AppSignal e"
  shows "length (filter (listens sig) rs) \<le> 1"
proof (cases sig)
  case (CronTick j)
  have "listens sig = (\<lambda>r. r = CronJob j)" by (rule ext) (simp add: CronTick)
  then show ?thesis using distinct_count_le_one[OF assms(1)] by simp
next
  case (ShortcutPressed k)
  have "listens sig = (\<lambda>r. r = GlobalShortcut k)" by (rule ext) (simp add: ShortcutPressed)
  then show ?thesis using distinct_count_le_one[OF assms(1)] by simp
next
  case (DebounceFlush k)
  have "listens sig = (\<lambda>r. r = FsWatcher k)" by (rule ext) (simp add: DebounceFlush)
  then show ?thesis using distinct_count_le_one[OF assms(1)] by simp
next
  case (PowerSignal e)
  with assms(2) show ?thesis by simp
next
  case (AppSignal e)
  with assms(2) show ?thesis by simp
next
  case (IntervalTick k)
  have "listens sig = (\<lambda>r. r = IntervalTimer k)" by (rule ext) (simp add: IntervalTick)
  then show ?thesis using distinct_count_le_one[OF assms(1)] by simp
qed

lemma power_listeners_count:
  assumes "length ns = length (List.map_filter eventMap evs)"
  shows "length (filter (listens sig)
             (map (\<lambda>(e, h). PowerListener e h) (zip (List.map_filter eventMap evs) ns))) =
           (case sig of PowerSignal e \<Rightarrow> length (filter (\<lambda>ev. eventMap ev = Some e) evs) | _ \<Rightarrow> 0)"
proof (cases "\<exists>e. sig = PowerSignal e")
  case True
  then obtain e where e: "sig = PowerSignal e" by blast
  show ?thesis unfolding e using count_power_listeners[OF assms, of e] count_map_filter[of e eventMap evs]
    by simp
next
  case False
  then have "filter (listens sig) (map (\<lambda>(e, h). PowerListener e h) zs) = []" for zs
    by (cases sig) (auto simp: filter_empty_conv)
  with False show ?thesis by (cases sig) simp_all
qed

lemma app_listeners_count:
  assumes "length ns = length (List.map_filter window_event evs)"
  shows "length (filter (listens sig)
             (map (\<lambda>(e, h). AppListener e h) (zip (List.map_filter window_event evs) ns))) =
           (case sig of AppSignal e \<Rightarrow> length (filter (\<lambda>ev. window_event ev = Some e) evs) | _ \<Rightarrow> 0)"
proof (cases "\<exists>e. sig = AppSignal e")
  case True
  then obtain e where e: "sig = AppSignal e" by blast
  show ?thesis unfolding e using count_app_listeners[OF assms, of e] count_map_filter[of e window_event evs]
    by simp
next
  case False
  then have "filter (listens sig) (map (\<lambda>(e, h). AppListener e h) zs) = []" for zs
    by (cases sig) (auto simp: filter_empty_conv)
  with False show ?thesis by (cases sig) simp_all
qed

text \<open>
  Claim C7, as amended. Under the registry's invariant, which the empty registry has and
  which \<open>register\<close> and \<open>unregister\<close> keep, after \<open>register\<close> of \<open>a\<close> and then
  of \<open>a'\<close> with the same id: the table has at most one entry for the id; the
  \<open>unregister\<close> that opens the second \<open>register\<close> leaves no callback of the id
  installed; the callbacks of the id installed afterwards are exactly the ones the
  configuration of \<open>a'\<close> asks for, on fresh handles, each with the workspace and the
  trigger kind of \<open>a'\<close>; the id has a table entry exactly when a callback was installed
  or an app-event configuration lists \<open>app-ready\<close>, and the entry's \<open>stop\<close> closure
  releases exactly those callbacks; the only \<open>onTrigger\<close> calls made during the
  registration are the immediate ones for \<open>app-ready\<close>. When the host then delivers a
  signal, the calls made for the id are one for each callback of \<open>a'\<close> that listens to
  it, with the workspace, the id and the kind of \<open>a'\<close>: at most one for a cron tick, a
  shortcut, a debounce flush and an interval tick; for a power event as many as there are
  occurrences of the event in the configured list, and likewise for a window event.
  \<open>unregister\<close> is idempotent and changes nothing when the id has no entry.
\<close>

theorem register_replaces:
  assumes "reg_inv reg" and "a_id a' = a_id a"
  shows "reg_inv (register env a reg) \<and>
         reg_inv (register env' a' (register env a reg)) \<and>
         length (filter (\<lambda>entry. fst entry = a_id a) (triggers (register env' a' (register env a reg)))) \<le> 1 \<and>
         subscriptions (a_id a) (unregister (a_id a) (register env a reg)) = [] \<and>
         subscriptions (a_id a) (register env' a' (register env a reg)) =
           (case a_triggerConfig a' of
        ScheduleTriggerConfig c r tz \<Rightarrow>
          (case c of None \<Rightarrow> []
           | Some x \<Rightarrow> if x \<noteq> [] \<and> cron_accepts env' x tz then [CronJob (next_handle (register env a reg))] else [])
      | FileChangeTriggerConfig ps pats evs d \<Rightarrow>
          map FsWatcher [(next_handle (register env a reg))..<(next_handle (register env a reg)) + length (filter (\<lambda>p. existsSync env' p \<and> watch_succeeds env' p) ps)]
      | HotkeyTriggerConfig accel \<Rightarrow>
          if accel \<noteq> [] \<and> shortcut_granted env' accel \<and>
             GlobalShortcut accel \<notin> h_resource ` set (handlers (unregister (a_id a) (register env a reg)))
          then [GlobalShortcut accel] else []
      | WebhookTriggerConfig p sec \<Rightarrow> []
      | DeepLinkTriggerConfig \<Rightarrow> []
      | AppEventTriggerConfig evs \<Rightarrow>
          map (\<lambda>(e, h). AppListener e h)
            (zip (List.map_filter window_event evs)
                 [(next_handle (register env a reg))..<(next_handle (register env a reg)) + length (List.map_filter window_event evs)])
      | PowerEventTriggerConfig evs \<Rightarrow>
          map (\<lambda>(e, h). PowerListener e h)
            (zip (List.map_filter eventMap evs)
                 [(next_handle (register env a reg))..<(next_handle (register env a reg)) + length (List.map_filter eventMap evs)])
      | ClipboardTriggerConfig pat poll \<Rightarrow> [IntervalTimer (next_handle (register env a reg))]
      | FolderActionTriggerConfig folder exts np mn mx dn \<Rightarrow>
          if folder \<noteq> [] \<and> existsSync env' folder \<and> watch_succeeds env' folder
          then [FsWatcher (next_handle (register env a reg))] else []
      | ManualTriggerConfig \<Rightarrow> []) \<and>
         map_of (triggers (register env' a' (register env a reg))) (a_id a) =
           (if subscriptions (a_id a) (register env' a' (register env a reg)) \<noteq> [] \<or>
               (case a_triggerConfig a' of AppEventTriggerConfig evs \<Rightarrow> ''app-ready'' \<in> set evs | _ \<Rightarrow> False)
            then Some \<lparr>rt_automationId = a_id a, rt_type = config_type (a_triggerConfig a'),
                        rt_stop = subscriptions (a_id a) (register env' a' (register env a reg))\<rparr>
            else None) \<and>
         fired (register env' a' (register env a reg)) = fired (register env a reg) @
           (case a_triggerConfig a' of
          AppEventTriggerConfig evs \<Rightarrow>
            map (\<lambda>ev. \<lparr>tc_workspaceId = a_workspaceId a', tc_automationId = a_id a,
                        tc_triggeredBy = AppEvent,
                        tc_triggerContext = [(''event'', JString ev), (''firedAt'', JString (now_iso env'))]\<rparr>)
                (filter (\<lambda>ev. ev = ''app-ready'') evs)
        | _ \<Rightarrow> []) \<and>
         (\<forall>h \<in> set (handlers (register env' a' (register env a reg))).
            h_automationId h = a_id a \<longrightarrow>
              h_workspaceId h = a_workspaceId a' \<and> h_type h = config_type (a_triggerConfig a')) \<and>
         filter (\<lambda>c. tc_automationId c = a_id a)
                (drop (length (fired (register env' a' (register env a reg)))) (fired (host_emits sig ctx (register env' a' (register env a reg))))) =
           replicate (length (filter (listens sig) (subscriptions (a_id a) (register env' a' (register env a reg)))))
               \<lparr>tc_workspaceId = a_workspaceId a', tc_automationId = a_id a,
                 tc_triggeredBy = config_type (a_triggerConfig a'), tc_triggerContext = ctx\<rparr> \<and>
         ((\<forall>e. sig \<noteq> PowerSignal e \<and> sig \<noteq> AppSignal e) \<longrightarrow>
            length (filter (listens sig) (subscriptions (a_id a) (register env' a' (register env a reg)))) \<le> 1) \<and>
         (\<forall>evs. a_triggerConfig a' = PowerEventTriggerConfig evs \<longrightarrow>
            length (filter (listens sig) (subscriptions (a_id a) (register env' a' (register env a reg)))) =
              (case sig of PowerSignal e \<Rightarrow> length (filter (\<lambda>ev. eventMap ev = Some e) evs)
               | _ \<Rightarrow> 0)) \<and>
         (\<forall>evs. a_triggerConfig a' = AppEventTriggerConfig evs \<longrightarrow>
            length (filter (listens sig) (subscriptions (a_id a) (register env' a' (register env a reg)))) =
              (case sig of AppSignal e \<Rightarrow> length (filter (\<lambda>ev. window_event ev = Some e) evs)
               | _ \<Rightarrow> 0)) \<and>
         reg_inv (unregister x reg) \<and>
         unregister x (unregister x reg) = unregister x reg \<and>
         (map_of (triggers reg) x = None \<longrightarrow> unregister x reg = reg)"
proof -
  let ?reg1 = "register env a reg"
  let ?reg2 = "register env' a' ?reg1"
  note r1 = reg_inv_register[OF assms(1), of env a]
  note r2 = reg_inv_register[OF r1(1), of env' a']
  note ex = register_exact[OF r1(1), where a = a' and env = env', unfolded assms(2)]
  have one: "length (filter (\<lambda>entry. fst entry = a_id a) (triggers ?reg2)) \<le> 1"
    using r2(1) by (intro at_most_one_entry) (simp add: reg_inv_def)
  have gone: "subscriptions (a_id a) (unregister (a_id a) ?reg1) = []"
    using unregister_removes_owned[OF r1(1), of _ "a_id a"]
    by (auto simp: subscriptions_def filter_empty_conv)
  have attrs: "\<forall>h \<in> set (handlers ?reg2).
            h_automationId h = a_id a \<longrightarrow>
              h_workspaceId h = a_workspaceId a' \<and> h_type h = config_type (a_triggerConfig a')"
    using r2(2) assms(2) by simp
  note calls = calls_of_signal[OF attrs, of sig ctx]
  have d: "distinct (subscriptions (a_id a) ?reg2)"
    using r2(1) by (simp add: reg_inv_def subscriptions_def distinct_map_filter)
  have single: "(\<forall>e. sig \<noteq> PowerSignal e \<and> sig \<noteq> AppSignal e) \<longrightarrow>
            length (filter (listens sig) (subscriptions (a_id a) ?reg2)) \<le> 1"
    using single_listener[OF d] by blast
  have power: "\<forall>evs. a_triggerConfig a' = PowerEventTriggerConfig evs \<longrightarrow>
            length (filter (listens sig) (subscriptions (a_id a) ?reg2)) =
              (case sig of PowerSignal e \<Rightarrow> length (filter (\<lambda>ev. eventMap ev = Some e) evs)
               | _ \<Rightarrow> 0)"
  proof (intro allI impI)
    fix evs assume c: "a_triggerConfig a' = PowerEventTriggerConfig evs"
    show "length (filter (listens sig) (subscriptions (a_id a) ?reg2)) =
              (case sig of PowerSignal e \<Rightarrow> length (filter (\<lambda>ev. eventMap ev = Some e) evs)
               | _ \<Rightarrow> 0)"
      unfolding ex(1) c TriggerConfig.case by (rule power_listeners_count) simp
  qed
  have app: "\<forall>evs. a_triggerConfig a' = AppEventTriggerConfig evs \<longrightarrow>
            length (filter (listens sig) (subscriptions (a_id a) ?reg2)) =
              (case sig of AppSignal e \<Rightarrow> length (filter (\<lambda>ev. window_event ev = Some e) evs)
               | _ \<Rightarrow> 0)"
  proof (intro allI impI)
    fix evs assume c: "a_triggerConfig a' = AppEventTriggerConfig evs"
    show "length (filter (listens sig) (subscriptions (a_id a) ?reg2)) =
              (case sig of AppSignal e \<Rightarrow> length (filter (\<lambda>ev. window_event ev = Some e) evs)
               | _ \<Rightarrow> 0)"
      unfolding ex(1) c TriggerConfig.case by (rule app_listeners_count) simp
  qed
  show ?thesis
    apply (intro conjI)
                 apply (rule r1(1))
                apply (rule r2(1))
               apply (rule one)
              apply (rule gone)
             apply (rule ex(1))
            apply (rule ex(2))
           apply (rule ex(3))
          apply (rule attrs)
         apply (rule calls)
        apply (rule single)
       apply (rule power)
      apply (rule app)
     apply (rule reg_inv_unregister[OF assms(1)])
    apply (rule unregister_idem)
    apply (rule impI)
    apply (erule unregister_absent)
    done
qed

lemmas signal_eval = reg_eval host_emits_def subscriptions_def power_automation_def
  folder_automation_def registerPowerEventTrigger_def registerFolderActionTrigger_def eventMap_def

theorem register_replaces_witness:
  "reg_inv empty_registry \<and>
   a_id folder_automation = a_id schedule_automation \<and>
   a_id (power_automation [''suspend'', ''resume'']) = a_id schedule_automation \<and>
   reg_inv (register example_env folder_automation (register example_env schedule_automation empty_registry)) \<and>
   subscriptions ''auto1'' (register example_env folder_automation (register example_env schedule_automation empty_registry)) = [FsWatcher 1] \<and>
   map_of (triggers (register example_env folder_automation (register example_env schedule_automation empty_registry))) ''auto1'' =
     Some \<lparr>rt_automationId = ''auto1'', rt_type = FolderAction, rt_stop = [FsWatcher 1]\<rparr> \<and>
   filter (\<lambda>c. tc_automationId c = ''auto1'')
          (drop (length (fired (register example_env folder_automation (register example_env schedule_automation empty_registry)))) (fired (host_emits (DebounceFlush 1) [] (register example_env folder_automation (register example_env schedule_automation empty_registry))))) =
     [\<lparr>tc_workspaceId = ''w1'', tc_automationId = ''auto1'', tc_triggeredBy = FolderAction,
       tc_triggerContext = []\<rparr>] \<and>
   reg_inv (register example_env (power_automation [''suspend'', ''resume'']) (register example_env schedule_automation empty_registry)) \<and>
   subscriptions ''auto1'' (register example_env (power_automation [''suspend'', ''resume'']) (register example_env schedule_automation empty_registry)) = [PowerListener ''suspend'' 1, PowerListener ''resume'' 2] \<and>
   filter (\<lambda>c. tc_automationId c = ''auto1'')
          (drop (length (fired (register example_env (power_automation [''suspend'', ''resume'']) (register example_env schedule_automation empty_registry)))) (fired (host_emits (PowerSignal ''suspend'') [] (register example_env (power_automation [''suspend'', ''resume'']) (register example_env schedule_automation empty_registry))))) =
     [\<lparr>tc_workspaceId = ''w1'', tc_automationId = ''auto1'', tc_triggeredBy = PowerEvent,
       tc_triggerContext = []\<rparr>]"
proof -
  have h1: "reg_inv empty_registry" by (simp add: reg_inv_def empty_registry_def)
  have h2: "a_id folder_automation = a_id schedule_automation"
    by (simp add: folder_automation_def schedule_automation_def)
  have h3: "a_id (power_automation [''suspend'', ''resume'']) = a_id schedule_automation"
    by (simp add: power_automation_def schedule_automation_def)
  have n: "next_handle (register example_env schedule_automation empty_registry) = 1"
    by (simp add: reg_eval)
  have i: "a_id schedule_automation = ''auto1''"
    by (simp add: schedule_automation_def example_automation_def)
  have cf: "a_triggerConfig folder_automation =
              FolderActionTriggerConfig ''/inbox'' None None None None None"
    and wf: "a_workspaceId folder_automation = ''w1''"
    by (simp_all add: folder_automation_def example_automation_def)
  have cp: "a_triggerConfig (power_automation [''suspend'', ''resume'']) =
              PowerEventTriggerConfig [''suspend'', ''resume'']"
    and wp: "a_workspaceId (power_automation [''suspend'', ''resume'']) = ''w1''"
    by (simp_all add: power_automation_def example_automation_def)
  note F = register_replaces[OF h1 h2, where env = example_env and env' = example_env
      and sig = "DebounceFlush 1" and ctx = "[]", unfolded i n cf wf]
  note P = register_replaces[OF h1 h3, where env = example_env and env' = example_env
      and sig = "PowerSignal ''suspend''" and ctx = "[]", unfolded i n cp wp]
  from F have f1: "reg_inv (register example_env folder_automation (register example_env schedule_automation empty_registry))" by blast
  from F[THEN conjunct2, THEN conjunct2, THEN conjunct2, THEN conjunct2, THEN conjunct1] have f2: "subscriptions ''auto1'' (register example_env folder_automation (register example_env schedule_automation empty_registry)) = [FsWatcher 1]"
    by (simp add: example_env_def)
  from F[THEN conjunct2, THEN conjunct2, THEN conjunct2, THEN conjunct2, THEN conjunct2, THEN conjunct1] have f3: "map_of (triggers (register example_env folder_automation (register example_env schedule_automation empty_registry))) ''auto1'' =
     Some \<lparr>rt_automationId = ''auto1'', rt_type = FolderAction, rt_stop = [FsWatcher 1]\<rparr>"
    unfolding f2 by simp
  from F[THEN conjunct2, THEN conjunct2, THEN conjunct2, THEN conjunct2, THEN conjunct2, THEN conjunct2, THEN conjunct2, THEN conjunct2, THEN conjunct1] have f4: "filter (\<lambda>c. tc_automationId c = ''auto1'')
          (drop (length (fired (register example_env folder_automation (register example_env schedule_automation empty_registry)))) (fired (host_emits (DebounceFlush 1) [] (register example_env folder_automation (register example_env schedule_automation empty_registry))))) =
     [\<lparr>tc_workspaceId = ''w1'', tc_automationId = ''auto1'', tc_triggeredBy = FolderAction,
       tc_triggerContext = []\<rparr>]"
    unfolding f2 by simp
  from P have p1: "reg_inv (register example_env (power_automation [''suspend'', ''resume'']) (register example_env schedule_automation empty_registry))" by blast
  from P[THEN conjunct2, THEN conjunct2, THEN conjunct2, THEN conjunct2, THEN conjunct1] have p2: "subscriptions ''auto1'' (register example_env (power_automation [''suspend'', ''resume'']) (register example_env schedule_automation empty_registry)) = [PowerListener ''suspend'' 1, PowerListener ''resume'' 2]"
    by (simp add: map_filter_simps eventMap_def upt_rec)
  from P[THEN conjunct2, THEN conjunct2, THEN conjunct2, THEN conjunct2, THEN conjunct2, THEN conjunct2, THEN conjunct2, THEN conjunct2, THEN conjunct1] have p4: "filter (\<lambda>c. tc_automationId c = ''auto1'')
          (drop (length (fired (register example_env (power_automation [''suspend'', ''resume'']) (register example_env schedule_automation empty_registry)))) (fired (host_emits (PowerSignal ''suspend'') [] (register example_env (power_automation [''suspend'', ''resume'']) (register example_env schedule_automation empty_registry))))) =
     [\<lparr>tc_workspaceId = ''w1'', tc_automationId = ''auto1'', tc_triggeredBy = PowerEvent,
       tc_triggerContext = []\<rparr>]"
    unfolding p2 by simp
  from h1 h2 h3 f1 f2 f3 f4 p1 p2 p4 show ?thesis by (intro conjI)
qed

text \<open>
  With a power-event configuration that lists an event twice the registration keeps one
  table entry but adds two listeners, and one \<open>suspend\<close> signal makes two
  \<open>onTrigger\<close> calls: a fire does not always produce exactly one callback invocation.
\<close>

theorem duplicate_event_fires_twice:
  "(let reg2 = register example_env (power_automation [''suspend'', ''suspend''])
                 (register example_env schedule_automation empty_registry)
    in map fst (triggers reg2) = [''auto1''] \<and>
       subscriptions ''auto1'' reg2 = [PowerListener ''suspend'' 1, PowerListener ''suspend'' 2] \<and>
       fired reg2 = [] \<and>
       fired (host_emits (PowerSignal ''suspend'') [] reg2) =
         [\<lparr>tc_workspaceId = ''w1'', tc_automationId = ''auto1'', tc_triggeredBy = PowerEvent,
           tc_triggerContext = []\<rparr>,
          \<lparr>tc_workspaceId = ''w1'', tc_automationId = ''auto1'', tc_triggeredBy = PowerEvent,
           tc_triggerContext = []\<rparr>])"
  by (simp add: signal_eval)

section \<open>The statuses of a run when calls interleave\<close>











lemma pool_inv_cong:
  assumes "disk s' = disk s" "activeRuns s' = activeRuns s" "ids s' = ids s" "ids_taken s' = ids_taken s"
  shows "pool_inv s' pool = pool_inv s pool"
  using assms
  by (simp add: pool_inv_def call_phase_def finished_phase_def status_history_def used_ids_def
      active_ids_def)

lemma pool_inv_emit [simp]: "pool_inv (emit e s) pool = pool_inv s pool"
  by (rule pool_inv_cong) (simp_all add: emit_def)

lemma pool_inv_timers [simp]: "pool_inv (s\<lparr>timers := ts\<rparr>) pool = pool_inv s pool"
  by (rule pool_inv_cong) simp_all





lemma terminal_run_status [simp]: "terminal (run_status status)"
  by (cases status) (simp_all add: terminal_def)








lemma cleanup_run_ids [simp]:
  "ids (cleanup_run e s) = ids s" "ids_taken (cleanup_run e s) = ids_taken s"
  by (simp_all add: cleanup_run_def Let_def tick_def clearTimeout_def
      split: prod.splits option.splits)

lemma fold_cleanup_run_ids [simp]:
  "ids (fold cleanup_run xs s) = ids s" "ids_taken (fold cleanup_run xs s) = ids_taken s"
  by (induction xs arbitrary: s) simp_all







lemma point_run_suspended: "suspended p = Some l \<Longrightarrow> point_run p = r_id (xl_run l)"
  by (simp add: point_run_def)













lemma awaits_session_simps [simp]:
  "awaits_session (AwaitCreateSession l)"
  "\<not> awaits_session (AwaitSetSessionSources l sid ur)"
  "\<not> awaits_session (AwaitSendMessage l sid ur)"
  by (simp_all add: awaits_session_def)

lemma suspend_simps [simp]:
  "suspend (AwaitCreateSession l) pool = pool @ [AwaitCreateSession l]"
  "suspend (AwaitSetSessionSources l sid ur) pool = pool @ [AwaitSetSessionSources l sid ur]"
  "suspend (AwaitSendMessage l sid ur) pool = pool @ [AwaitSendMessage l sid ur]"
  "suspend (Returned run) pool = pool"
  "suspend (Thrown e) pool = pool"
  by (simp_all add: suspend_def)


lemma exec_catch_ids [simp]:
  "ids (snd (exec_catch l msg s)) = ids s" "ids_taken (snd (exec_catch l msg s)) = ids_taken s"
  by (simp_all add: exec_catch_def Let_def tick_def emit_def broadcastAutomationEvent_def
      broadcastAutomationsChanged_def split: prod.splits option.splits)















text \<open>
  Every operation only appends to the history of writes: what has been written for a run
  stays in its history, in the same place.
\<close>

lemma completeRun_appends:
  "\<exists>ws. run_writes (disk (completeRun runId status error s)) = run_writes (disk s) @ ws"
  by (simp add: completeRun_def Let_def tick_def clearTimeout_def emit_def
      broadcastAutomationEvent_def broadcastAutomationsChanged_def updateRun_def saveRun_def
      split: option.splits prod.splits)

lemma completeRun_appends_from:
  "disk s0 = disk s \<Longrightarrow>
     \<exists>ws. run_writes (disk (completeRun runId status error s0)) = run_writes (disk s) @ ws"
  using completeRun_appends[of runId status error s0] by simp

lemma exec_catch_appends:
  "\<exists>ws. run_writes (disk (snd (exec_catch l msg s))) = run_writes (disk s) @ ws"
  by (simp add: exec_catch_def Let_def tick_def emit_def broadcastAutomationEvent_def
      broadcastAutomationsChanged_def updateRun_def saveRun_def
      split: option.splits prod.splits)

lemma cleanup_run_appends:
  "\<exists>ws. run_writes (disk (cleanup_run e s)) = run_writes (disk s) @ ws"
  by (cases e) (simp add: cleanup_run_disk saveRun_def split: option.splits)

lemma fold_cleanup_run_appends:
  "\<exists>ws. run_writes (disk (fold cleanup_run xs s)) = run_writes (disk s) @ ws"
proof (induction xs arbitrary: s)
  case Nil
  then show ?case by simp
next
  case (Cons x xs)
  from cleanup_run_appends[of x s] obtain ws1 where
    w1: "run_writes (disk (cleanup_run x s)) = run_writes (disk s) @ ws1" by blast
  from Cons.IH[of "cleanup_run x s"] obtain ws2 where
    "run_writes (disk (fold cleanup_run xs (cleanup_run x s))) =
       run_writes (disk (cleanup_run x s)) @ ws2" by blast
  with w1 show ?case by simp
qed

lemma writes_are_appended:
  "\<exists>ws. run_writes (disk (snd (exec_begin w a tb ctx s))) = run_writes (disk s) @ ws"
  "\<exists>ws. run_writes (disk (snd (exec_resume p answer s))) = run_writes (disk s) @ ws"
  "\<exists>ws. run_writes (disk (snd (cancelRun_begin runId s))) = run_writes (disk s) @ ws"
  "\<exists>ws. run_writes (disk (snd (cancelRun_resume runId c s))) = run_writes (disk s) @ ws"
  "\<exists>ws. run_writes (disk (session_manager_emits event s)) = run_writes (disk s) @ ws"
  "\<exists>ws. run_writes (disk (timer_fires t c s)) = run_writes (disk s) @ ws"
  "\<exists>ws. run_writes (disk (cleanup s)) = run_writes (disk s) @ ws"
proof -
  show "\<exists>ws. run_writes (disk (snd (exec_begin w a tb ctx s))) = run_writes (disk s) @ ws"
    by (simp add: exec_begin_def Let_def createRun_def saveRun_def tick_def emit_def
        broadcastAutomationEvent_def split: option.splits)
  show "\<exists>ws. run_writes (disk (snd (exec_resume p answer s))) = run_writes (disk s) @ ws"
  proof (cases p)
    case (AwaitCreateSession l)
    show ?thesis
    proof (cases answer)
      case (Inl err)
      with AwaitCreateSession show ?thesis
        by (simp add: exec_after_createSession_def exec_catch_appends)
    next
      case (Inr sid)
      let ?u = "no_updates\<lparr>u_status := Some Running, u_sessionId := Some (Some sid)\<rparr>"
      show ?thesis
      proof (cases "getRun (ws_rootPath (xl_workspace l)) (r_id (xl_run l)) (disk s)")
        case None
        with AwaitCreateSession Inr exec_catch_appends[of l "''Failed to update run record''" s]
        show ?thesis by (simp add: exec_after_createSession_def updateRun_def)
      next
        case (Some run)
        with AwaitCreateSession Inr show ?thesis
          by (simp add: exec_after_createSession_def Let_def tick_def emit_def setTimeout_def
              updateRun_def saveRun_def exec_send_def split: option.splits)
      qed
    qed
  next
    case (AwaitSetSessionSources l sid ur)
    then show ?thesis
      by (simp add: exec_after_setSessionSources_def exec_catch_appends split: option.splits)
  next
    case (AwaitSendMessage l sid ur)
    then show ?thesis
      by (simp add: exec_after_sendMessage_def exec_catch_appends split: option.splits)
  next
    case (Returned x)
    then show ?thesis by simp
  next
    case (Thrown x)
    then show ?thesis by simp
  qed
  show "\<exists>ws. run_writes (disk (snd (cancelRun_begin runId s))) = run_writes (disk s) @ ws"
    by (simp add: cancelRun_begin_def split: option.splits)
  show "\<exists>ws. run_writes (disk (snd (cancelRun_resume runId c s))) = run_writes (disk s) @ ws"
    by (simp add: cancelRun_resume_def completeRun_appends split: option.splits)
  show "\<exists>ws. run_writes (disk (session_manager_emits event s)) = run_writes (disk s) @ ws"
    by (simp add: session_manager_emits_def handleSessionEvent_def completeRun_appends_from
        split: option.splits)
  show "\<exists>ws. run_writes (disk (timer_fires t c s)) = run_writes (disk s) @ ws"
    by (simp add: timer_fires_def handleTimeout_def Let_def completeRun_appends_from
        split: option.splits prod.splits)
  show "\<exists>ws. run_writes (disk (cleanup s)) = run_writes (disk s) @ ws"
    using fold_cleanup_run_appends[of "activeRuns s"
        "s\<lparr>triggerRegistry := unregisterAll (triggerRegistry s)\<rparr>"]
    by (simp add: cleanup_def Let_def)
qed



end
